theory Spec2Isabelle
  imports Main "HOL-Library.AList"
begin

section \<open>JavaScript strings\<close>

text \<open>
  A JavaScript string is a sequence of UTF-16 code units. The development covers text
  whose code units are all below 256: a \<^typ>\<open>char\<close> stands for the code unit of the
  same number, so \<open>length\<close> is JavaScript's \<open>.length\<close>. On this range
  \<open>toLowerCase\<close> maps \<open>A\<close>-\<open>Z\<close> and the upper-case letters of the Latin-1 block
  (C0-DE, without the multiplication sign D7) to the code unit 32 above, and the class
  \<open>\s\<close> of regular expressions holds TAB, LF, VT, FF, CR, SPACE and NBSP.
\<close>

definition codeUnit :: "char \<Rightarrow> nat" where
  "codeUnit c = of_char c"

definition isSpace :: "char \<Rightarrow> bool" where
  "isSpace c = (codeUnit c \<in> set [9, 10, 11, 12, 13, 32, 160])"

definition isDigit :: "char \<Rightarrow> bool" where
  "isDigit c = (48 \<le> codeUnit c \<and> codeUnit c \<le> 57)"

definition isUpper :: "char \<Rightarrow> bool" where
  "isUpper c =
     ((65 \<le> codeUnit c \<and> codeUnit c \<le> 90)
      \<or> (192 \<le> codeUnit c \<and> codeUnit c \<le> 214)
      \<or> (216 \<le> codeUnit c \<and> codeUnit c \<le> 222))"

definition lowerChar :: "char \<Rightarrow> char" where
  "lowerChar c = (if isUpper c then char_of (codeUnit c + 32) else c)"

text \<open>\<open>String.prototype.toLowerCase\<close>.\<close>

definition toLowerCase :: "string \<Rightarrow> string" where
  "toLowerCase s = map lowerChar s"

text \<open>
  \<open>s.split(/\s+/)\<close>: the pieces between the maximal runs of whitespace. A run at the
  start or at the end of the text leaves an empty piece there, and the empty text gives
  the one empty piece.
\<close>

function splitWs :: "string \<Rightarrow> string \<Rightarrow> string list" where
  "splitWs cur [] = [cur]"
| "splitWs cur (c # cs) =
     (if isSpace c then cur # splitWs [] (dropWhile isSpace cs)
      else splitWs (cur @ [c]) cs)"
  by pat_completeness auto
termination
  by (relation "measure (\<lambda>(cur, s). length s)")
     (auto simp: less_Suc_eq_le length_dropWhile_le)

definition split_ws :: "string \<Rightarrow> string list" where
  "split_ws s = splitWs [] s"

text \<open>\<open>/^\d+$/.test(word)\<close>: one digit at least and digits only.\<close>

definition allDigits :: "string \<Rightarrow> bool" where
  "allDigits word = (word \<noteq> [] \<and> list_all isDigit word)"

definition isPunct :: "char \<Rightarrow> bool" where
  "isPunct c = (c \<in> set ''.,!?'')"

text \<open>\<open>word.replace(/[.,!?]/g, '')\<close>: the global flag deletes every occurrence.\<close>

definition removePunct :: "string \<Rightarrow> string" where
  "removePunct word = filter (\<lambda>c. \<not> isPunct c) word"

text \<open>\<open>String.prototype.trim\<close> and \<open>startsWith\<close>.\<close>

definition trim :: "string \<Rightarrow> string" where
  "trim s = rev (dropWhile isSpace (rev (dropWhile isSpace s)))"

definition startsWith :: "string \<Rightarrow> string \<Rightarrow> bool" where
  "startsWith s p = (take (length p) s = p)"

subsection \<open>Sets of strings\<close>

text \<open>
  A JavaScript \<open>Set\<close> keeps its members in insertion order and \<open>add\<close> ignores a
  value it already holds. \<open>[...new Set(xs)]\<close> is therefore \<open>newSet xs\<close>.
\<close>

definition setAdd :: "'a list \<Rightarrow> 'a \<Rightarrow> 'a list" where
  "setAdd s x = (if x \<in> set s then s else s @ [x])"

definition newSet :: "'a list \<Rightarrow> 'a list" where
  "newSet xs = foldl setAdd [] xs"

section \<open>Tokenizer\<close>

text \<open>
  \<^verbatim>\<open>
  function extractKeywords(content: string): string[] {
    return [...new Set(content.toLowerCase().split(/\s+/)
        .filter((word) => word.length > 2 && !/^\d+$/.test(word))
        .map((word) => word.replace(/[.,!?]/g, ''))
        .slice(0, 10))];
  }
  \<close>
\<close>

definition extractKeywords :: "string \<Rightarrow> string list" where
  "extractKeywords content =
     newSet (take 10 (map removePunct
       (filter (\<lambda>word. length word > 2 \<and> \<not> allDigits word)
         (split_ws (toLowerCase content)))))"

text \<open>
  The search terms of \<open>searchNodes\<close>:
  \<^verbatim>\<open>
  const searchTerms = [...new Set(query.toLowerCase().split(/\s+/)
      .filter((term) => term.length > 2))];
  \<close>
\<close>

definition searchTerms :: "string \<Rightarrow> string list" where
  "searchTerms query =
     newSet (filter (\<lambda>term. length term > 2) (split_ws (toLowerCase query)))"

subsection \<open>The reference algorithm of the specification\<close>

text \<open>
  The tokenizer as the specification words it: lower-case the text; split on runs of
  whitespace; discard tokens of length at most 2; discard tokens that are purely numeric;
  strip leading and trailing punctuation from each surviving token; deduplicate keeping
  the first occurrence; truncate to the first 10.
\<close>

function spec_split :: "string \<Rightarrow> string list" where
  "spec_split s =
     (case dropWhile isSpace s of
        [] \<Rightarrow> []
      | c # cs \<Rightarrow> takeWhile (\<lambda>x. \<not> isSpace x) (c # cs)
                 # spec_split (dropWhile (\<lambda>x. \<not> isSpace x) cs))"
  by pat_completeness auto
termination
proof (relation "measure length", goal_cases)
  case 1
  show ?case by simp
next
  case (2 s c cs)
  have "length (dropWhile (\<lambda>x. \<not> isSpace x) cs) \<le> length cs"
    by (rule length_dropWhile_le)
  moreover have "length (dropWhile isSpace s) \<le> length s"
    by (rule length_dropWhile_le)
  ultimately show ?case using 2 by simp
qed

declare spec_split.simps [simp del]

definition spec_strip :: "string \<Rightarrow> string" where
  "spec_strip t = rev (dropWhile isPunct (rev (dropWhile isPunct t)))"

fun spec_dedup :: "'a list \<Rightarrow> 'a list" where
  "spec_dedup [] = []"
| "spec_dedup (x # xs) = x # spec_dedup (filter (\<lambda>y. y \<noteq> x) xs)"

definition spec_tokenize :: "string \<Rightarrow> string list" where
  "spec_tokenize text =
     spec_dedup (map spec_strip
       (filter (\<lambda>t. \<not> allDigits t)
         (filter (\<lambda>t. \<not> length t \<le> 2) (spec_split (toLowerCase text)))))"

definition spec_extractKeywords :: "string \<Rightarrow> string list" where
  "spec_extractKeywords text = take 10 (spec_tokenize text)"

text \<open>
  The same steps with the two that the code takes differently: every punctuation
  character of a token is deleted, and the list is cut to 10 tokens before it is
  deduplicated.
\<close>

definition ref_extractKeywords :: "string \<Rightarrow> string list" where
  "ref_extractKeywords text =
     spec_dedup (take 10 (map removePunct
       (filter (\<lambda>t. \<not> allDigits t)
         (filter (\<lambda>t. \<not> length t \<le> 2) (spec_split (toLowerCase text))))))"

section \<open>JSON\<close>

text \<open>
  The value \<open>JSON.parse\<close> returns. A string of a JSON text can hold any code unit
  (through \<open>\uXXXX\<close>), so parsed strings are lists of code units; \<open>widen\<close> takes
  a string of the development into them and \<open>narrow\<close> back. A number keeps the text
  of its literal.
\<close>

datatype json =
    JNull
  | JBool bool
  | JNumber string
  | JString "nat list"
  | JArray "json list"
  | JObject "(nat list \<times> json) list"

definition widen :: "string \<Rightarrow> nat list" where
  "widen s = map codeUnit s"

definition narrow :: "nat list \<Rightarrow> string option" where
  "narrow u = (if list_all (\<lambda>n. n < 256) u then Some (map char_of u) else None)"

subsection \<open>\<open>JSON.stringify\<close> of an array of strings\<close>

definition hexDigit :: "nat \<Rightarrow> char" where
  "hexDigit n = ''0123456789abcdef'' ! n"

text \<open>
  The quotation mark and the backslash are escaped, the control characters below 32
  get their short escape or \<open>\u00xx\<close>, every other code unit stands for itself.
\<close>

definition quoteChar :: "char \<Rightarrow> string" where
  "quoteChar c =
     (if c = CHR 0x22 then [CHR 0x5C, CHR 0x22]
      else if c = CHR 0x5C then [CHR 0x5C, CHR 0x5C]
      else if c = CHR 0x08 then [CHR 0x5C, CHR ''b'']
      else if c = CHR 0x09 then [CHR 0x5C, CHR ''t'']
      else if c = CHR 0x0A then [CHR 0x5C, CHR ''n'']
      else if c = CHR 0x0C then [CHR 0x5C, CHR ''f'']
      else if c = CHR 0x0D then [CHR 0x5C, CHR ''r'']
      else if codeUnit c < 32 then
        [CHR 0x5C, CHR ''u'', CHR ''0'', CHR ''0'',
         hexDigit (codeUnit c div 16), hexDigit (codeUnit c mod 16)]
      else [c])"

definition quoteJSONString :: "string \<Rightarrow> string" where
  "quoteJSONString s = CHR 0x22 # concat (map quoteChar s) @ [CHR 0x22]"

fun joinComma :: "string list \<Rightarrow> string" where
  "joinComma [] = []"
| "joinComma [x] = x"
| "joinComma (x # y # ys) = x @ CHR '','' # joinComma (y # ys)"

definition JSON_stringify :: "string list \<Rightarrow> string" where
  "JSON_stringify xs = CHR ''['' # joinComma (map quoteJSONString xs) @ [CHR '']'']"

subsection \<open>\<open>JSON.parse\<close>\<close>

datatype token =
    TLBracket | TRBracket | TLBrace | TRBrace | TComma | TColon
  | TString "nat list" | TNumber string | TTrue | TFalse | TNull

definition hexValue :: "char \<Rightarrow> nat option" where
  "hexValue c =
     (let n = codeUnit c in
      if 48 \<le> n \<and> n \<le> 57 then Some (n - 48)
      else if 97 \<le> n \<and> n \<le> 102 then Some (n - 87)
      else if 65 \<le> n \<and> n \<le> 70 then Some (n - 55)
      else None)"

definition escapeValue :: "char \<Rightarrow> nat option" where
  "escapeValue e =
     (if e = CHR 0x22 then Some 34
      else if e = CHR 0x5C then Some 92
      else if e = CHR ''/'' then Some 47
      else if e = CHR ''b'' then Some 8
      else if e = CHR ''f'' then Some 12
      else if e = CHR ''n'' then Some 10
      else if e = CHR ''r'' then Some 13
      else if e = CHR ''t'' then Some 9
      else None)"

text \<open>
  The characters of a string literal after its opening quotation mark: the code units
  up to the closing mark, and the text after it. A control character, an unknown escape
  and a missing closing mark are syntax errors.
\<close>

fun lexString :: "string \<Rightarrow> (nat list \<times> string) option" where
  "lexString [] = None"
| "lexString (c # cs) =
     (if c = CHR 0x22 then Some ([], cs)
      else if c = CHR 0x5C then
        (case cs of
           [] \<Rightarrow> None
         | e # es \<Rightarrow>
             if e = CHR ''u'' then
               (case es of
                  h1 # h2 # h3 # h4 # rest \<Rightarrow>
                    (case (hexValue h1, hexValue h2, hexValue h3, hexValue h4) of
                       (Some a, Some b, Some c, Some d) \<Rightarrow>
                         map_option (\<lambda>(u, r). ((((a * 16 + b) * 16 + c) * 16 + d) # u, r))
                           (lexString rest)
                     | _ \<Rightarrow> None)
                | _ \<Rightarrow> None)
             else
               (case escapeValue e of
                  None \<Rightarrow> None
                | Some v \<Rightarrow> map_option (\<lambda>(u, r). (v # u, r)) (lexString es)))
      else if codeUnit c < 32 then None
      else map_option (\<lambda>(u, r). (codeUnit c # u, r)) (lexString cs))"

text \<open>
  A number literal: an optional minus, \<open>0\<close> or a digit sequence without leading zero,
  an optional fraction, an optional exponent.
\<close>

definition lexDigits :: "string \<Rightarrow> (string \<times> string) option" where
  "lexDigits s =
     (if takeWhile isDigit s = [] then None
      else Some (takeWhile isDigit s, dropWhile isDigit s))"

definition lexInt :: "string \<Rightarrow> (string \<times> string) option" where
  "lexInt s =
     (case s of
        [] \<Rightarrow> None
      | d # ds \<Rightarrow> if d = CHR ''0'' then Some ([d], ds) else lexDigits (d # ds))"

definition lexFrac :: "string \<Rightarrow> (string \<times> string) option" where
  "lexFrac s =
     (case s of
        [] \<Rightarrow> Some ([], s)
      | p # ps \<Rightarrow>
          if p = CHR ''.'' then map_option (\<lambda>(f, r). (p # f, r)) (lexDigits ps)
          else Some ([], s))"

definition lexExp :: "string \<Rightarrow> (string \<times> string) option" where
  "lexExp s =
     (case s of
        [] \<Rightarrow> Some ([], s)
      | e # es \<Rightarrow>
          if e = CHR ''e'' \<or> e = CHR ''E'' then
            (case es of
               [] \<Rightarrow> None
             | g # gs \<Rightarrow>
                 if g = CHR ''+'' \<or> g = CHR ''-''
                 then map_option (\<lambda>(x, r). (e # g # x, r)) (lexDigits gs)
                 else map_option (\<lambda>(x, r). (e # x, r)) (lexDigits es))
          else Some ([], s))"

definition lexNumber :: "string \<Rightarrow> (string \<times> string) option" where
  "lexNumber s =
     (let (sign, s1) = (case s of
                          [] \<Rightarrow> ([], s)
                        | m # ms \<Rightarrow> if m = CHR ''-'' then ([m], ms) else ([], s))
      in case lexInt s1 of
           None \<Rightarrow> None
         | Some (i, s2) \<Rightarrow>
             (case lexFrac s2 of
                None \<Rightarrow> None
              | Some (f, s3) \<Rightarrow>
                  (case lexExp s3 of
                     None \<Rightarrow> None
                   | Some (x, s4) \<Rightarrow> Some (sign @ i @ f @ x, s4))))"

definition isJsonSpace :: "char \<Rightarrow> bool" where
  "isJsonSpace c = (c \<in> set [CHR 0x09, CHR 0x0A, CHR 0x0D, CHR 0x20])"

text \<open>The tokens of a JSON text; \<open>None\<close> is the syntax error.\<close>

function lex :: "string \<Rightarrow> token list option" where
  "lex [] = Some []"
| "lex (c # cs) =
     (if isJsonSpace c then lex cs
      else if c = CHR ''['' then map_option (Cons TLBracket) (lex cs)
      else if c = CHR '']'' then map_option (Cons TRBracket) (lex cs)
      else if c = CHR ''{'' then map_option (Cons TLBrace) (lex cs)
      else if c = CHR ''}'' then map_option (Cons TRBrace) (lex cs)
      else if c = CHR '','' then map_option (Cons TComma) (lex cs)
      else if c = CHR '':'' then map_option (Cons TColon) (lex cs)
      else if c = CHR 0x22 then
        (case lexString cs of
           None \<Rightarrow> None
         | Some (u, rest) \<Rightarrow> map_option (Cons (TString u)) (lex rest))
      else if c = CHR ''-'' \<or> isDigit c then
        (case lexNumber (c # cs) of
           None \<Rightarrow> None
         | Some (n, rest) \<Rightarrow> map_option (Cons (TNumber n)) (lex rest))
      else if startsWith (c # cs) ''true'' then map_option (Cons TTrue) (lex (drop 3 cs))
      else if startsWith (c # cs) ''false'' then map_option (Cons TFalse) (lex (drop 4 cs))
      else if startsWith (c # cs) ''null'' then map_option (Cons TNull) (lex (drop 3 cs))
      else None)"
  by pat_completeness auto
termination
proof (relation "measure length", goal_cases)
  case 1
  show ?case by simp
next
  case (9 c cs p u rest)
  have "lexString s = Some (v, r) \<Longrightarrow> length r < length s" for s v r
    by (induction s arbitrary: v r rule: lexString.induct)
       (fastforce split: if_splits list.splits option.splits prod.splits)+
  from this [of cs u rest] 9 show ?case by simp
next
  case (10 c cs p n rest)
  have d: "lexDigits s = Some (x, r) \<Longrightarrow> length r < length s" for s x r
    unfolding lexDigits_def
    by (cases s) (auto split: if_splits intro: le_imp_less_Suc length_dropWhile_le)
  have "lexNumber s = Some (x, r) \<Longrightarrow> length r < length s" for s x r
    unfolding lexNumber_def lexInt_def lexFrac_def lexExp_def
    by (fastforce split: list.splits if_splits option.splits prod.splits dest!: d)
  from this [of "c # cs" n rest] 10 show ?case by simp
qed simp_all

text \<open>
  The parser reads the tokens from left to right and keeps the open arrays and objects
  on a stack: an array with the elements read so far, an object with its members and
  the key whose value is being read.
\<close>

datatype frame =
    InArray "json list"
  | InObject "(nat list \<times> json) list" "nat list option"

datatype expect =
    Value            \<comment> \<open>a value starts here\<close>
  | ValueOrClose     \<comment> \<open>after \<open>[\<close>: a value or \<open>]\<close>\<close>
  | KeyOrClose       \<comment> \<open>after \<open>{\<close>: a key or \<open>}\<close>\<close>
  | Key              \<comment> \<open>after a comma in an object\<close>
  | Colon            \<comment> \<open>after a key\<close>
  | CommaOrClose     \<comment> \<open>after a value inside an array or an object\<close>
  | Finished json    \<comment> \<open>the whole value is read\<close>

text \<open>A value \<open>v\<close> is complete: it is the result, or goes into the innermost open frame.\<close>

fun complete :: "json \<Rightarrow> frame list \<Rightarrow> (expect \<times> frame list) option" where
  "complete v [] = Some (Finished v, [])"
| "complete v (InArray es # st) = Some (CommaOrClose, InArray (es @ [v]) # st)"
| "complete v (InObject ms (Some k) # st) = Some (CommaOrClose, InObject (ms @ [(k, v)]) None # st)"
| "complete v (InObject ms None # st) = None"

fun closeArray :: "frame list \<Rightarrow> (expect \<times> frame list) option" where
  "closeArray (InArray es # st) = complete (JArray es) st"
| "closeArray _ = None"

fun closeObject :: "frame list \<Rightarrow> (expect \<times> frame list) option" where
  "closeObject (InObject ms None # st) = complete (JObject ms) st"
| "closeObject _ = None"

fun startValue :: "token \<Rightarrow> frame list \<Rightarrow> (expect \<times> frame list) option" where
  "startValue TLBracket st = Some (ValueOrClose, InArray [] # st)"
| "startValue TLBrace st = Some (KeyOrClose, InObject [] None # st)"
| "startValue (TString u) st = complete (JString u) st"
| "startValue (TNumber n) st = complete (JNumber n) st"
| "startValue TTrue st = complete (JBool True) st"
| "startValue TFalse st = complete (JBool False) st"
| "startValue TNull st = complete JNull st"
| "startValue _ st = None"

fun startKey :: "token \<Rightarrow> frame list \<Rightarrow> (expect \<times> frame list) option" where
  "startKey (TString k) (InObject ms None # st) = Some (Colon, InObject ms (Some k) # st)"
| "startKey _ _ = None"

fun parseStep :: "expect \<times> frame list \<Rightarrow> token \<Rightarrow> (expect \<times> frame list) option" where
  "parseStep (Value, st) t = startValue t st"
| "parseStep (ValueOrClose, st) t = (if t = TRBracket then closeArray st else startValue t st)"
| "parseStep (KeyOrClose, st) t = (if t = TRBrace then closeObject st else startKey t st)"
| "parseStep (Key, st) t = startKey t st"
| "parseStep (Colon, st) t = (if t = TColon then Some (Value, st) else None)"
| "parseStep (CommaOrClose, st) t =
     (if t = TComma then
        (case st of
           InArray es # _ \<Rightarrow> Some (Value, st)
         | InObject ms None # _ \<Rightarrow> Some (Key, st)
         | _ \<Rightarrow> None)
      else if t = TRBracket then closeArray st
      else if t = TRBrace then closeObject st
      else None)"
| "parseStep (Finished v, st) t = None"

fun parseTokens :: "expect \<times> frame list \<Rightarrow> token list \<Rightarrow> json option" where
  "parseTokens (Finished v, []) [] = Some v"
| "parseTokens _ [] = None"
| "parseTokens p (t # ts) =
     (case parseStep p t of None \<Rightarrow> None | Some p' \<Rightarrow> parseTokens p' ts)"

text \<open>\<open>JSON.parse(text)\<close>; \<open>None\<close> is the \<open>SyntaxError\<close> it throws.\<close>

definition JSON_parse :: "string \<Rightarrow> json option" where
  "JSON_parse text =
     (case lex text of None \<Rightarrow> None | Some ts \<Rightarrow> parseTokens (Value, []) ts)"

section \<open>Node repository\<close>

text \<open>
  \<^verbatim>\<open>
  export interface KnowledgeNode {
    id: string; content: string; type: 'note' | 'url'; createdAt: string; keywords: string[];
  }
  \<close>
\<close>

datatype node_type = Note | Url

record KnowledgeNode =
  nid :: string
  content :: string
  ntype :: node_type
  createdAt :: string
  nkeywords :: "string list"

fun typeString :: "node_type \<Rightarrow> string" where
  "typeString Note = ''note''"
| "typeString Url = ''url''"

text \<open>
  At run time a node is an object: its properties in insertion order. A property read
  from a hash is a string; \<open>keywords\<close> is whatever \<open>JSON.parse\<close> returned.
\<close>

datatype jsvalue = Str string | Json json

type_synonym jsobject = "(string \<times> jsvalue) list"

type_synonym hash = "(string \<times> string) list"

definition getProp :: "jsobject \<Rightarrow> string \<Rightarrow> jsvalue option" where
  "getProp obj name = map_of obj name"

text \<open>The object \<open>{ id, content, type, createdAt, keywords }\<close> of a typed node.\<close>

definition nodeObject :: "KnowledgeNode \<Rightarrow> jsobject" where
  "nodeObject n =
     [(''id'', Str (nid n)),
      (''content'', Str (content n)),
      (''type'', Str (typeString (ntype n))),
      (''createdAt'', Str (createdAt n)),
      (''keywords'', Json (JArray (map (\<lambda>k. JString (widen k)) (nkeywords n))))]"

text \<open>\<open>{ ...node, keywords: JSON.stringify(node.keywords) }\<close>: the fields of the stored hash.\<close>

definition storableNode :: "KnowledgeNode \<Rightarrow> hash" where
  "storableNode n =
     [(''id'', nid n),
      (''content'', content n),
      (''type'', typeString (ntype n)),
      (''createdAt'', createdAt n),
      (''keywords'', JSON_stringify (nkeywords n))]"

text \<open>
  \<^verbatim>\<open>
  function parseNode(redisResult: Record<string, string> | null): KnowledgeNode | null {
    if (!redisResult || Object.keys(redisResult).length === 0) return null;
    try {
      return { ...redisResult, keywords: JSON.parse(redisResult.keywords || '[]') }
        as unknown as KnowledgeNode;
    } catch (e) { return null; }
  }
  \<close>
  The cast checks nothing: the result has the properties of the hash, whatever they are.
\<close>

definition keywordsText :: "hash \<Rightarrow> string" where
  "keywordsText h =
     (case map_of h ''keywords'' of
        None \<Rightarrow> ''[]''
      | Some t \<Rightarrow> if t = [] then ''[]'' else t)"

definition parseNode :: "hash option \<Rightarrow> jsobject option" where
  "parseNode redisResult =
     (case redisResult of
        None \<Rightarrow> None
      | Some h \<Rightarrow>
          if h = [] then None
          else (case JSON_parse (keywordsText h) of
                  None \<Rightarrow> None
                | Some j \<Rightarrow>
                    Some (AList.update ''keywords'' (Json j) (map (\<lambda>(f, v). (f, Str v)) h))))"

subsection \<open>Iterating stored keywords\<close>

text \<open>
  \<open>for (const keyword of node.keywords)\<close> and \<open>new Set(oldNode.keywords)\<close> iterate a
  value that was parsed, not checked. An array gives its elements and a string its
  characters; \<open>null\<close>, a boolean, a number and an object are not iterable, which is a
  \<open>TypeError\<close> (the \<open>Set\<close> constructor alone takes \<open>null\<close> for the empty set). The
  keys built from the items are strings of the development: an array with an element
  that is not a string, and a string with a code unit above 255, are left outside
  (\<open>Unmodelled\<close>).
\<close>

datatype iteration = Items "string list" | NotIterable | Unmodelled

fun stringItems :: "json list \<Rightarrow> string list option" where
  "stringItems [] = Some []"
| "stringItems (JString u # xs) =
     (case narrow u of
        None \<Rightarrow> None
      | Some s \<Rightarrow> map_option (Cons s) (stringItems xs))"
| "stringItems (_ # xs) = None"

fun iterateJson :: "json \<Rightarrow> iteration" where
  "iterateJson (JArray xs) = (case stringItems xs of None \<Rightarrow> Unmodelled | Some ks \<Rightarrow> Items ks)"
| "iterateJson (JString u) =
     (case narrow u of None \<Rightarrow> Unmodelled | Some s \<Rightarrow> Items (map (\<lambda>c. [c]) s))"
| "iterateJson _ = NotIterable"

fun forOf :: "jsvalue option \<Rightarrow> iteration" where
  "forOf None = NotIterable"
| "forOf (Some (Str s)) = Items (map (\<lambda>c. [c]) s)"
| "forOf (Some (Json j)) = iterateJson j"

fun setOf :: "jsvalue option \<Rightarrow> iteration" where
  "setOf None = Items []"
| "setOf (Some (Json JNull)) = Items []"
| "setOf (Some v) = (case forOf (Some v) of Items ks \<Rightarrow> Items (newSet ks) | r \<Rightarrow> r)"

section \<open>Storage backend\<close>

text \<open>
  The store is one key space; a key holds a hash or a set. A hash keeps its fields and a
  set its members in insertion order (the order in which the server returns them is not
  fixed; nothing below depends on it). A command on a key that holds the other kind is
  answered with the \<open>WRONGTYPE\<close> error. A set that loses its last member is removed.
\<close>

datatype rvalue = RHash hash | RSet "string list"

type_synonym store = "string \<Rightarrow> rvalue option"

datatype command =
    HGETALL string
  | HSET string hash
  | SADD string string
  | SREM string string
  | DEL string
  | SMEMBERS string
  | SUNION "string list"

datatype reply = Fields hash | Members "string list" | Count nat | WrongType

definition hsetFields :: "hash \<Rightarrow> hash \<Rightarrow> hash" where
  "hsetFields h fs = foldl (\<lambda>h (f, v). AList.update f v h) h fs"

fun isHash :: "rvalue option \<Rightarrow> bool" where
  "isHash (Some (RHash h)) = True"
| "isHash _ = False"

fun isSet :: "rvalue option \<Rightarrow> bool" where
  "isSet (Some (RSet ms)) = True"
| "isSet _ = False"

fun membersOf :: "rvalue option \<Rightarrow> string list" where
  "membersOf (Some (RSet ms)) = ms"
| "membersOf _ = []"

fun runCommand :: "command \<Rightarrow> store \<Rightarrow> reply \<times> store" where
  "runCommand (HGETALL k) s =
     (case s k of
        None \<Rightarrow> (Fields [], s)
      | Some (RHash h) \<Rightarrow> (Fields h, s)
      | Some (RSet ms) \<Rightarrow> (WrongType, s))"
| "runCommand (HSET k fs) s =
     (case s k of
        None \<Rightarrow> (Count (length (hsetFields [] fs)), s(k \<mapsto> RHash (hsetFields [] fs)))
      | Some (RHash h) \<Rightarrow>
          (Count (length (hsetFields h fs) - length h), s(k \<mapsto> RHash (hsetFields h fs)))
      | Some (RSet ms) \<Rightarrow> (WrongType, s))"
| "runCommand (SADD k m) s =
     (case s k of
        None \<Rightarrow> (Count 1, s(k \<mapsto> RSet [m]))
      | Some (RSet ms) \<Rightarrow>
          if m \<in> set ms then (Count 0, s) else (Count 1, s(k \<mapsto> RSet (ms @ [m])))
      | Some (RHash h) \<Rightarrow> (WrongType, s))"
| "runCommand (SREM k m) s =
     (case s k of
        None \<Rightarrow> (Count 0, s)
      | Some (RSet ms) \<Rightarrow>
          if m \<in> set ms
          then (Count 1, if removeAll m ms = [] then s(k := None) else s(k \<mapsto> RSet (removeAll m ms)))
          else (Count 0, s)
      | Some (RHash h) \<Rightarrow> (WrongType, s))"
| "runCommand (DEL k) s =
     (case s k of None \<Rightarrow> (Count 0, s) | Some v \<Rightarrow> (Count 1, s(k := None)))"
| "runCommand (SMEMBERS k) s =
     (if isHash (s k) then (WrongType, s) else (Members (membersOf (s k)), s))"
| "runCommand (SUNION ks) s =
     (if list_ex (\<lambda>k. isHash (s k)) ks then (WrongType, s)
      else (Members (newSet (concat (map (\<lambda>k. membersOf (s k)) ks))), s))"

text \<open>The commands of a batch run in order; each has its own reply.\<close>

fun runAll :: "command list \<Rightarrow> store \<Rightarrow> reply list \<times> store" where
  "runAll [] s = ([], s)"
| "runAll (c # cs) s =
     (case runCommand c s of
        (r, s') \<Rightarrow> (case runAll cs s' of (rs, s'') \<Rightarrow> (r # rs, s'')))"

text \<open>
  The client: the store behind it, the round trips sent so far, and the failures of the
  connection. \<open>fault db r = Some n\<close> says that the round trip \<open>r\<close> throws, after the
  first \<open>n\<close> of its commands took effect. A direct call (\<open>db.hgetall\<close>,
  \<open>db.smembers\<close>, \<open>db.sunion\<close>) also throws when the reply is an error;
  \<open>pipeline.exec()\<close> returns the error in the reply of the command.
\<close>

datatype request = Call command | Exec "command list"

record db =
  store :: store
  sent :: "request list"
  fault :: "request \<Rightarrow> nat option"

definition exec :: "command list \<Rightarrow> db \<Rightarrow> reply list option \<times> db" where
  "exec cs d =
     (case fault d (Exec cs) of
        Some n \<Rightarrow>
          (None, d\<lparr>store := snd (runAll (take n cs) (store d)), sent := sent d @ [Exec cs]\<rparr>)
      | None \<Rightarrow>
          (Some (fst (runAll cs (store d))),
           d\<lparr>store := snd (runAll cs (store d)), sent := sent d @ [Exec cs]\<rparr>))"

definition call :: "command \<Rightarrow> db \<Rightarrow> reply option \<times> db" where
  "call c d =
     (case fault d (Call c) of
        Some n \<Rightarrow>
          (None, d\<lparr>store := snd (runAll (take n [c]) (store d)), sent := sent d @ [Call c]\<rparr>)
      | None \<Rightarrow>
          (case runCommand c (store d) of
             (WrongType, s') \<Rightarrow> (None, d\<lparr>store := s', sent := sent d @ [Call c]\<rparr>)
           | (r, s') \<Rightarrow> (Some r, d\<lparr>store := s', sent := sent d @ [Call c]\<rparr>)))"

definition nodeKey :: "string \<Rightarrow> string" where
  "nodeKey nodeId = ''node:'' @ nodeId"

definition keywordKey :: "string \<Rightarrow> string" where
  "keywordKey keyword = ''keyword:'' @ keyword"

fun fieldsOf :: "reply \<Rightarrow> hash option" where
  "fieldsOf (Fields h) = Some h"
| "fieldsOf _ = None"

section \<open>Server actions\<close>

text \<open>
  What the actions take from outside is a parameter: the identifier \<open>uuidv4()\<close>
  returns and the time stamp \<open>new Date().toISOString()\<close> of \<open>addNodeAction\<close>, the
  test \<open>z.string().uuid()\<close> of the validation library (\<open>isUuid\<close>), and the number
  \<open>new Date(x).getTime()\<close> for the \<open>createdAt\<close> property \<open>x\<close> of a node
  (\<open>getTime\<close>; the \<open>NaN\<close> of an invalid date is not modelled). A form field is a string,
  or absent (\<open>None\<close>, which fails validation as an uploaded file would);
  \<open>addNodeAction\<close> is modelled for a \<open>content\<close> field that is present.
  \<open>revalidatePath\<close> does not touch the store and is left out.
\<close>

datatype status = Error | Success | Idle

definition newNode :: "string \<Rightarrow> string \<Rightarrow> string \<Rightarrow> KnowledgeNode" where
  "newNode nodeId now text =
     \<lparr>nid = nodeId,
      content = text,
      ntype = (if startsWith text ''http'' then Url else Note),
      createdAt = now,
      nkeywords = extractKeywords text\<rparr>"

definition addBatch :: "KnowledgeNode \<Rightarrow> command list" where
  "addBatch node =
     HSET (nodeKey (nid node)) (storableNode node)
     # SADD ''nodes'' (nid node)
     # map (\<lambda>keyword. SADD (keywordKey keyword) (nid node)) (nkeywords node)"

definition addNodeAction ::
  "string \<Rightarrow> string \<Rightarrow> string \<Rightarrow> db \<Rightarrow> (status \<times> string) \<times> db" where
  "addNodeAction nodeId now text d =
     (if length text < 3 then ((Error, ''Content must be at least 3 characters.''), d)
      else (case exec (addBatch (newNode nodeId now text)) d of
              (None, d') \<Rightarrow> ((Error, ''Database error.''), d')
            | (Some results, d') \<Rightarrow> ((Success, ''Node added!''), d')))"

definition validId :: "(string \<Rightarrow> bool) \<Rightarrow> string option \<Rightarrow> string option" where
  "validId isUuid field =
     (case field of None \<Rightarrow> None | Some v \<Rightarrow> if isUuid v then Some v else None)"

definition validContent :: "string option \<Rightarrow> string option" where
  "validContent field =
     (case field of None \<Rightarrow> None | Some v \<Rightarrow> if length v < 3 then None else Some v)"

definition deleteBatch :: "string \<Rightarrow> string list \<Rightarrow> command list" where
  "deleteBatch nodeId kws =
     SREM ''nodes'' nodeId
     # map (\<lambda>keyword. SREM (keywordKey keyword) nodeId) kws
     @ [DEL (nodeKey nodeId)]"

text \<open>
  \<open>deleteNodeAction\<close> and \<open>editNodeAction\<close> return \<open>None\<close> where the stored
  keywords are \<open>Unmodelled\<close>. A \<open>TypeError\<close> of the iteration is thrown inside the
  \<open>try\<close> block, before \<open>pipeline.exec()\<close>, and ends in the \<open>catch\<close> clause.
\<close>

definition deleteNodeAction ::
  "(string \<Rightarrow> bool) \<Rightarrow> string option \<Rightarrow> db \<Rightarrow> ((bool \<times> string) \<times> db) option" where
  "deleteNodeAction isUuid field d =
     (case validId isUuid field of
        None \<Rightarrow> Some ((False, ''Invalid Node ID.''), d)
      | Some nodeId \<Rightarrow>
          (case call (HGETALL (nodeKey nodeId)) d of
             (None, d1) \<Rightarrow> Some ((False, ''Database error.''), d1)
           | (Some nodeData, d1) \<Rightarrow>
               (case parseNode (fieldsOf nodeData) of
                  None \<Rightarrow> Some ((False, ''Node not found.''), d1)
                | Some node \<Rightarrow>
                    (case forOf (getProp node ''keywords'') of
                       Unmodelled \<Rightarrow> None
                     | NotIterable \<Rightarrow> Some ((False, ''Database error.''), d1)
                     | Items kws \<Rightarrow>
                         (case exec (deleteBatch nodeId kws) d1 of
                            (None, d2) \<Rightarrow> Some ((False, ''Database error.''), d2)
                          | (Some results, d2) \<Rightarrow> Some ((True, ''Node deleted.''), d2))))))"

text \<open>
  \<^verbatim>\<open>
  const keywordsToAdd = [...newKeywords].filter((kw) => !oldKeywords.has(kw));
  const keywordsToRemove = [...oldKeywords].filter((kw) => !newKeywords.has(kw));
  \<close>
\<close>

definition keywordsToAdd :: "string list \<Rightarrow> string list \<Rightarrow> string list" where
  "keywordsToAdd oldKeywords newKeywords = filter (\<lambda>kw. kw \<notin> set oldKeywords) newKeywords"

definition keywordsToRemove :: "string list \<Rightarrow> string list \<Rightarrow> string list" where
  "keywordsToRemove oldKeywords newKeywords = filter (\<lambda>kw. kw \<notin> set newKeywords) oldKeywords"

definition editBatch :: "string \<Rightarrow> string \<Rightarrow> string list \<Rightarrow> string list \<Rightarrow> command list" where
  "editBatch nodeId text oldKeywords newKeywords =
     HSET (nodeKey nodeId) [(''content'', text), (''keywords'', JSON_stringify newKeywords)]
     # map (\<lambda>keyword. SADD (keywordKey keyword) nodeId) (keywordsToAdd oldKeywords newKeywords)
     @ map (\<lambda>keyword. SREM (keywordKey keyword) nodeId) (keywordsToRemove oldKeywords newKeywords)"

definition editNodeAction ::
  "(string \<Rightarrow> bool) \<Rightarrow> string option \<Rightarrow> string option \<Rightarrow> db \<Rightarrow> ((bool \<times> string) \<times> db) option" where
  "editNodeAction isUuid idField contentField d =
     (case (validId isUuid idField, validContent contentField) of
        (Some nodeId, Some text) \<Rightarrow>
          (case call (HGETALL (nodeKey nodeId)) d of
             (None, d1) \<Rightarrow> Some ((False, ''Database error.''), d1)
           | (Some oldNodeData, d1) \<Rightarrow>
               (case parseNode (fieldsOf oldNodeData) of
                  None \<Rightarrow> Some ((False, ''Node not found.''), d1)
                | Some oldNode \<Rightarrow>
                    (case setOf (getProp oldNode ''keywords'') of
                       Unmodelled \<Rightarrow> None
                     | NotIterable \<Rightarrow> Some ((False, ''Database error.''), d1)
                     | Items oldKeywords \<Rightarrow>
                         (case exec (editBatch nodeId text oldKeywords (newSet (extractKeywords text))) d1 of
                            (None, d2) \<Rightarrow> Some ((False, ''Database error.''), d2)
                          | (Some results, d2) \<Rightarrow> Some ((True, ''Node updated.''), d2)))))
      | _ \<Rightarrow> Some ((False, ''Invalid data.''), d))"

text \<open>
  \<^verbatim>\<open>
  results.map(([err, data]) => err ? null : parseNode(data))
    .filter((node) => node !== null)
    .sort((a, b) => new Date(b.createdAt).getTime() - new Date(a.createdAt).getTime())
  \<close>
  \<open>Array.prototype.sort\<close> is stable.
\<close>

definition readNodes :: "reply list \<Rightarrow> jsobject list" where
  "readNodes results = List.map_filter (\<lambda>r. parseNode (fieldsOf r)) results"

definition sortNewestFirst :: "(jsvalue option \<Rightarrow> int) \<Rightarrow> jsobject list \<Rightarrow> jsobject list" where
  "sortNewestFirst getTime nodes = sort_key (\<lambda>n. - getTime (getProp n ''createdAt'')) nodes"

fun idsOf :: "reply \<Rightarrow> string list" where
  "idsOf (Members ms) = ms"
| "idsOf _ = []"

definition fetchNodes ::
  "(jsvalue option \<Rightarrow> int) \<Rightarrow> string list \<Rightarrow> db \<Rightarrow> jsobject list \<times> db" where
  "fetchNodes getTime ids d =
     (case exec (map (\<lambda>i. HGETALL (nodeKey i)) ids) d of
        (None, d') \<Rightarrow> ([], d')
      | (Some results, d') \<Rightarrow> (sortNewestFirst getTime (readNodes results), d'))"

definition getAllNodes :: "(jsvalue option \<Rightarrow> int) \<Rightarrow> db \<Rightarrow> jsobject list \<times> db" where
  "getAllNodes getTime d =
     (case call (SMEMBERS ''nodes'') d of
        (None, d1) \<Rightarrow> ([], d1)
      | (Some r, d1) \<Rightarrow>
          if idsOf r = [] then ([], d1) else fetchNodes getTime (idsOf r) d1)"

definition searchNodes :: "(jsvalue option \<Rightarrow> int) \<Rightarrow> string \<Rightarrow> db \<Rightarrow> jsobject list \<times> db" where
  "searchNodes getTime query d =
     (if trim query = [] then ([], d)
      else if searchTerms query = [] then ([], d)
      else (case call (SUNION (map keywordKey (searchTerms query))) d of
              (None, d1) \<Rightarrow> ([], d1)
            | (Some r, d1) \<Rightarrow>
                if idsOf r = [] then ([], d1) else fetchNodes getTime (idsOf r) d1))"

text \<open>
  For the examples: the empty store behind a connection that never fails, and the shape
  of a UUID (groups of 8, 4, 4, 4 and 12 hexadecimal digits, joined by hyphens) as an
  instance of \<open>isUuid\<close>.
\<close>

definition emptyDb :: db where
  "emptyDb = \<lparr>store = Map.empty, sent = [], fault = (\<lambda>r. None)\<rparr>"

definition uuidShaped :: "string \<Rightarrow> bool" where
  "uuidShaped s =
     (length s = 36 \<and>
      list_all (\<lambda>i. if i \<in> set [8, 13, 18, 23] then s ! i = CHR ''-'' else hexValue (s ! i) \<noteq> None)
        [0 ..< 36])"

section \<open>Properties of the tokenizer\<close>

subsection \<open>Sets\<close>

lemma set_foldl_setAdd: "set (foldl setAdd acc xs) = set acc \<union> set xs"
  by (induction xs arbitrary: acc) (auto simp: setAdd_def)

lemma distinct_foldl_setAdd: "distinct acc \<Longrightarrow> distinct (foldl setAdd acc xs)"
  by (induction xs arbitrary: acc) (auto simp: setAdd_def)

lemma set_newSet: "set (newSet xs) = set xs"
  by (simp add: newSet_def set_foldl_setAdd)

lemma distinct_newSet: "distinct (newSet xs)"
  by (simp add: newSet_def distinct_foldl_setAdd)

lemma length_foldl_setAdd: "length (foldl setAdd acc xs) \<le> length acc + length xs"
proof (induction xs arbitrary: acc)
  case Nil
  show ?case by simp
next
  case (Cons x xs)
  have "length (foldl setAdd (setAdd acc x) xs) \<le> length (setAdd acc x) + length xs"
    by (rule Cons.IH)
  moreover have "length (setAdd acc x) \<le> Suc (length acc)"
    by (simp add: setAdd_def)
  ultimately show ?case by simp
qed

lemma length_newSet: "length (newSet xs) \<le> length xs"
  using length_foldl_setAdd [of "[]" xs] by (simp add: newSet_def)

lemma newSet_distinct_id: "distinct xs \<Longrightarrow> newSet xs = xs"
proof -
  have "distinct (acc @ xs) \<Longrightarrow> foldl setAdd acc xs = acc @ xs" for acc
    by (induction xs arbitrary: acc) (auto simp: setAdd_def)
  from this [of "[]"] show "distinct xs \<Longrightarrow> newSet xs = xs"
    by (simp add: newSet_def)
qed

lemma foldl_setAdd_dedup:
  "foldl setAdd acc xs = acc @ spec_dedup (filter (\<lambda>x. x \<notin> set acc) xs)"
proof (induction xs arbitrary: acc)
  case Nil
  show ?case by simp
next
  case (Cons x xs)
  show ?case
  proof (cases "x \<in> set acc")
    case True
    then show ?thesis using Cons.IH [of acc] by (simp add: setAdd_def)
  next
    case False
    have "filter (\<lambda>y. y \<noteq> x) (filter (\<lambda>y. y \<notin> set acc) xs)
          = filter (\<lambda>y. y \<notin> set (acc @ [x])) xs"
      by (induction xs) auto
    with False show ?thesis using Cons.IH [of "acc @ [x]"] by (simp add: setAdd_def)
  qed
qed

lemma newSet_dedup: "newSet xs = spec_dedup xs"
  using foldl_setAdd_dedup [of "[]" xs] by (simp add: newSet_def)

subsection \<open>Splitting\<close>

lemma splitWs_nospace: "\<forall>x\<in>set s. \<not> isSpace x \<Longrightarrow> splitWs cur s = [cur @ s]"
  by (induction s arbitrary: cur) auto

lemma splitWs_space:
  "\<forall>x\<in>set u. \<not> isSpace x \<Longrightarrow> isSpace d \<Longrightarrow>
   splitWs cur (u @ d # ds) = (cur @ u) # splitWs [] (dropWhile isSpace ds)"
  by (induction u arbitrary: cur) auto

lemma spec_split_Nil: "spec_split [] = []"
  by (simp add: spec_split.simps)

lemma spec_split_space: "isSpace c \<Longrightarrow> spec_split (c # cs) = spec_split (dropWhile isSpace cs)"
  by (subst spec_split.simps, subst (2) spec_split.simps) (simp add: dropWhile_idem)

lemma spec_split_nospace:
  "\<forall>x\<in>set s. \<not> isSpace x \<Longrightarrow> s \<noteq> [] \<Longrightarrow> spec_split s = [s]"
proof -
  assume a: "\<forall>x\<in>set s. \<not> isSpace x" "s \<noteq> []"
  then obtain c cs where s: "s = c # cs" by (cases s) auto
  have dw: "dropWhile (\<lambda>x. \<not> isSpace x) cs = []" "takeWhile (\<lambda>x. \<not> isSpace x) cs = cs"
    using a s by simp_all
  show ?thesis
    using a s by (subst spec_split.simps) (simp add: dw spec_split_Nil)
qed

lemma spec_split_word:
  "\<forall>x\<in>set u. \<not> isSpace x \<Longrightarrow> u \<noteq> [] \<Longrightarrow> isSpace d \<Longrightarrow>
   spec_split (u @ d # ds) = u # spec_split (dropWhile isSpace ds)"
proof -
  assume u: "\<forall>x\<in>set u. \<not> isSpace x" "u \<noteq> []" and d: "isSpace d"
  then obtain c cs where ccs: "u = c # cs" by (cases u) auto
  have tw: "takeWhile (\<lambda>x. \<not> isSpace x) (cs @ d # ds) = cs"
    using u d ccs by (simp add: takeWhile_append2 [of cs] takeWhile_tail)
  have dw: "dropWhile (\<lambda>x. \<not> isSpace x) (cs @ d # ds) = d # ds"
    using u d ccs by (simp add: dropWhile_append2 [of cs])
  have "spec_split (u @ d # ds) = u # spec_split (d # ds)"
    using u ccs tw dw by (subst spec_split.simps) simp
  then show ?thesis using d by (simp add: spec_split_space)
qed

lemma split_ws_nonempty:
  "filter (\<lambda>w. w \<noteq> []) (splitWs [] s) = spec_split s"
proof (induction "length s" arbitrary: s rule: less_induct)
  case less
  let ?u = "takeWhile (\<lambda>x. \<not> isSpace x) s"
  let ?r = "dropWhile (\<lambda>x. \<not> isSpace x) s"
  have u: "\<forall>x\<in>set ?u. \<not> isSpace x"
    by (auto dest: set_takeWhileD)
  have s: "s = ?u @ ?r" by simp
  show ?case
  proof (cases ?r)
    case Nil
    then have all: "\<forall>x\<in>set s. \<not> isSpace x" by simp
    show ?thesis
    proof (cases "s = []")
      case True
      then show ?thesis by (simp add: spec_split_Nil)
    next
      case False
      with all show ?thesis by (simp add: splitWs_nospace spec_split_nospace)
    qed
  next
    case (Cons d ds)
    have d: "isSpace d"
      using hd_dropWhile [of "\<lambda>x. \<not> isSpace x" s] Cons by simp
    have sd: "s = ?u @ d # ds" using s Cons by simp
    have "length (dropWhile isSpace ds) \<le> length ds" by (rule length_dropWhile_le)
    moreover have "length ds < length s" by (subst sd) simp
    ultimately have "length (dropWhile isSpace ds) < length s" by simp
    from less [OF this]
    have ih: "filter (\<lambda>w. w \<noteq> []) (splitWs [] (dropWhile isSpace ds)) = spec_split (dropWhile isSpace ds)" .
    have l: "splitWs [] s = ?u # splitWs [] (dropWhile isSpace ds)"
      using splitWs_space [OF u d, of "[]" ds] sd by simp
    show ?thesis
    proof (cases "?u = []")
      case True
      then have "s = d # ds" using sd by simp
      then have "spec_split s = spec_split (dropWhile isSpace ds)"
        using d by (simp add: spec_split_space)
      with l ih True show ?thesis by simp
    next
      case False
      have "spec_split s = ?u # spec_split (dropWhile isSpace ds)"
        using spec_split_word [OF u False d, of ds] sd by simp
      with l ih False show ?thesis by simp
    qed
  qed
qed

lemma filter_split_ws:
  "filter (\<lambda>w. length w > 2 \<and> Q w) (split_ws s) = filter Q (filter (\<lambda>t. \<not> length t \<le> 2) (spec_split s))"
proof -
  have "filter (\<lambda>w. length w > 2 \<and> Q w) (splitWs [] s)
        = filter (\<lambda>w. length w > 2 \<and> Q w) (filter (\<lambda>w. w \<noteq> []) (splitWs [] s))"
    unfolding filter_filter by (rule filter_cong) auto
  also have "\<dots> = filter Q (filter (\<lambda>t. \<not> length t \<le> 2) (spec_split s))"
    unfolding split_ws_nonempty filter_filter by (rule filter_cong) auto
  finally show ?thesis by (simp add: split_ws_def)
qed

subsection \<open>The keyword list\<close>

lemma extractKeywords_distinct: "distinct (extractKeywords text)"
  by (simp add: extractKeywords_def distinct_newSet)

lemma extractKeywords_length: "length (extractKeywords text) \<le> 10"
proof -
  have "length (extractKeywords text)
        \<le> length (take 10 (map removePunct (filter (\<lambda>word. length word > 2 \<and> \<not> allDigits word)
              (split_ws (toLowerCase text)))))"
    unfolding extractKeywords_def by (rule length_newSet)
  then show ?thesis by simp
qed

text \<open>
  C2. The specification: for every input \<open>extractKeywords\<close> returns no duplicates, no
  entry of length at most 2, no purely numeric entry and at most 10 entries, in the order
  of first occurrence. The list has no duplicates and at most 10 entries
  (\<open>extractKeywords_distinct\<close>, \<open>extractKeywords_length\<close>), but the filter on length
  and digits runs before the punctuation is deleted: the tokens \<open>ab!\<close>, \<open>123.\<close> and
  \<open>...\<close> pass it and leave the entries \<open>ab\<close>, \<open>123\<close> and the empty string.
\<close>

theorem C2_short_and_numeric_entries:
  "extractKeywords ''ab! 123. ...'' = [''ab'', ''123'', []]"
  by code_simp

text \<open>
  C3. The specification: \<open>extractKeywords\<close> is the reference algorithm in its stated
  order, which strips leading and trailing punctuation only and truncates after
  deduplicating. The code deletes interior punctuation too (\<open>a.b\<close> becomes \<open>ab\<close>)
  and truncates before it deduplicates (eleven tokens, the first ten equal, give one
  keyword and lose the eleventh).
\<close>

theorem C3_counterexample:
  "extractKeywords ''a.b'' \<noteq> spec_extractKeywords ''a.b''
   \<and> extractKeywords ''aaa aaa aaa aaa aaa aaa aaa aaa aaa aaa bbb''
       \<noteq> spec_extractKeywords ''aaa aaa aaa aaa aaa aaa aaa aaa aaa aaa bbb''"
  by code_simp

text \<open>
  C3, amended. \<open>extractKeywords\<close> is the reference algorithm with these two steps
  changed: lower-case, split on runs of whitespace, discard the tokens of length at most
  2, discard the purely numeric tokens, delete every punctuation character from each
  surviving token, truncate to the first 10 tokens, and then deduplicate keeping the
  first occurrence.
\<close>

theorem C3_extractKeywords_reference:
  "extractKeywords text = ref_extractKeywords text"
  unfolding extractKeywords_def ref_extractKeywords_def
  by (simp only: newSet_dedup filter_split_ws)

theorem C3_extractKeywords_reference_witness:
  "extractKeywords ''Hello, hello world! a.b 42''
     = ref_extractKeywords ''Hello, hello world! a.b 42''
   \<and> ref_extractKeywords ''Hello, hello world! a.b 42'' = [''hello'', ''world'', ''ab'']"
proof -
  have "ref_extractKeywords ''Hello, hello world! a.b 42'' = [''hello'', ''world'', ''ab'']"
    by code_simp
  with C3_extractKeywords_reference [of "''Hello, hello world! a.b 42''"]
  show ?thesis by simp
qed

lemma searchTerms_reference:
  "searchTerms query = spec_dedup (filter (\<lambda>t. \<not> length t \<le> 2) (spec_split (toLowerCase query)))"
proof -
  have "filter (\<lambda>term. length term > 2) (split_ws (toLowerCase query))
        = filter (\<lambda>t. \<not> length t \<le> 2) (spec_split (toLowerCase query))"
    using filter_split_ws [of "\<lambda>t. True" "toLowerCase query"] by simp
  then show ?thesis by (simp add: searchTerms_def newSet_dedup)
qed

text \<open>
  C4. The specification: the tokens \<open>searchNodes\<close> derives from a query are those of
  the tokenizer rule without the cap. \<open>extractKeywords\<close> drops numeric tokens and
  deletes punctuation; \<open>searchNodes\<close> does neither. For the query \<open>fast! 2024\<close> the
  code looks up \<open>fast!\<close> and \<open>2024\<close>, the rule gives \<open>fast\<close>. A node created
  with this very text is indexed under \<open>fast\<close>: the query \<open>fast\<close> finds it, the
  query \<open>fast! 2024\<close> finds nothing.
\<close>

theorem C4_search_terms_keep_punctuation:
  "searchTerms ''fast! 2024'' = [''fast!'', ''2024'']
   \<and> spec_tokenize ''fast! 2024'' = [''fast'']
   \<and> extractKeywords ''fast! 2024'' = [''fast'']
   \<and> fst (searchNodes (\<lambda>x. 0) ''fast! 2024''
        (snd (addNodeAction ''n1'' ''2024-01-01T00:00:00.000Z'' ''fast! 2024'' emptyDb))) = []
   \<and> map (\<lambda>node. getProp node ''id'')
        (fst (searchNodes (\<lambda>x. 0) ''fast''
          (snd (addNodeAction ''n1'' ''2024-01-01T00:00:00.000Z'' ''fast! 2024'' emptyDb))))
       = [Some (Str ''n1'')]"
  by code_simp

text \<open>
  C7. The keyword diff of \<open>editNodeAction\<close>: \<open>keywordsToAdd\<close> holds the members of
  the new set that are not in the old one, \<open>keywordsToRemove\<close> the members of the old
  set that are not in the new one, both without duplicates. Diffing a set against itself
  gives two empty lists, and the batch is then the one \<open>HSET\<close>.
\<close>

theorem C7_keyword_diff:
  "set (keywordsToAdd (newSet old) (newSet new)) = set new - set old
   \<and> set (keywordsToRemove (newSet old) (newSet new)) = set old - set new
   \<and> distinct (keywordsToAdd (newSet old) (newSet new))
   \<and> distinct (keywordsToRemove (newSet old) (newSet new))
   \<and> keywordsToAdd (newSet S) (newSet S) = []
   \<and> keywordsToRemove (newSet S) (newSet S) = []
   \<and> editBatch nodeId text (newSet S) (newSet S)
       = [HSET (nodeKey nodeId) [(''content'', text), (''keywords'', JSON_stringify (newSet S))]]"
proof -
  have a: "set (keywordsToAdd (newSet old) (newSet new)) = set new - set old"
    by (auto simp: keywordsToAdd_def set_newSet)
  have r: "set (keywordsToRemove (newSet old) (newSet new)) = set old - set new"
    by (auto simp: keywordsToRemove_def set_newSet)
  have da: "distinct (keywordsToAdd (newSet old) (newSet new))"
    by (simp add: keywordsToAdd_def distinct_newSet)
  have dr: "distinct (keywordsToRemove (newSet old) (newSet new))"
    by (simp add: keywordsToRemove_def distinct_newSet)
  have sa: "keywordsToAdd (newSet S) (newSet S) = []"
    by (simp add: keywordsToAdd_def filter_empty_conv)
  have sr: "keywordsToRemove (newSet S) (newSet S) = []"
    by (simp add: keywordsToRemove_def filter_empty_conv)
  have b: "editBatch nodeId text (newSet S) (newSet S)
       = [HSET (nodeKey nodeId) [(''content'', text), (''keywords'', JSON_stringify (newSet S))]]"
    by (simp add: editBatch_def sa sr)
  from a r da dr sa sr b show ?thesis by simp
qed

theorem C7_keyword_diff_witness:
  "keywordsToAdd (newSet [''fast'', ''databases'', ''fast'']) (newSet [''slow'', ''databases''])
     = [''slow'']
   \<and> keywordsToRemove (newSet [''fast'', ''databases'', ''fast'']) (newSet [''slow'', ''databases''])
     = [''fast'']
   \<and> keywordsToAdd (newSet [''fast'', ''databases'']) (newSet [''fast'', ''databases'']) = []
   \<and> keywordsToRemove (newSet [''fast'', ''databases'']) (newSet [''fast'', ''databases'']) = []"
proof -
  have "keywordsToAdd (newSet [''fast'', ''databases'', ''fast'']) (newSet [''slow'', ''databases''])
     = [''slow'']"
    by code_simp
  moreover have "keywordsToRemove (newSet [''fast'', ''databases'', ''fast''])
     (newSet [''slow'', ''databases'']) = [''fast'']"
    by code_simp
  ultimately show ?thesis
    using C7_keyword_diff [of "[''fast'', ''databases'']" "[''fast'', ''databases'']"
        "[''fast'', ''databases'']"]
    by simp
qed

section \<open>Properties of the node repository\<close>

subsection \<open>\<open>JSON.parse\<close> after \<open>JSON.stringify\<close>\<close>

lemma hexValue_hexDigit: "k < 16 \<Longrightarrow> hexValue (hexDigit k) = Some k"
proof -
  have "list_all (\<lambda>k. hexValue (hexDigit k) = Some k) [0 ..< 16]"
    by code_simp
  then show "k < 16 \<Longrightarrow> hexValue (hexDigit k) = Some k"
    by (simp add: list_all_iff)
qed

lemma lexString_quoteChar:
  "lexString (quoteChar c @ rest) = map_option (\<lambda>(u, r). (codeUnit c # u, r)) (lexString rest)"
proof -
  consider (quote) "c = CHR 0x22" | (backslash) "c = CHR 0x5C"
    | (short) "c \<in> {CHR 0x08, CHR 0x09, CHR 0x0A, CHR 0x0C, CHR 0x0D}"
    | (control) "c \<notin> {CHR 0x22, CHR 0x5C, CHR 0x08, CHR 0x09, CHR 0x0A, CHR 0x0C, CHR 0x0D}" "codeUnit c < 32"
    | (plain) "c \<notin> {CHR 0x22, CHR 0x5C}" "\<not> codeUnit c < 32"
    by (cases "codeUnit c < 32") auto
  then show ?thesis
  proof cases
    case quote
    then show ?thesis by (simp add: quoteChar_def escapeValue_def codeUnit_def)
  next
    case backslash
    then show ?thesis by (simp add: quoteChar_def escapeValue_def codeUnit_def)
  next
    case short
    then show ?thesis by (auto simp: quoteChar_def escapeValue_def codeUnit_def)
  next
    case control
    let ?n = "codeUnit c"
    have hi: "hexValue (hexDigit (?n div 16)) = Some (?n div 16)"
      using control by (intro hexValue_hexDigit) simp
    have lo: "hexValue (hexDigit (?n mod 16)) = Some (?n mod 16)"
      by (intro hexValue_hexDigit) simp
    have z: "hexValue CHR ''0'' = Some 0"
      by (simp add: hexValue_def codeUnit_def)
    from control have "quoteChar c = [CHR 0x5C, CHR ''u'', CHR ''0'', CHR ''0'',
         hexDigit (?n div 16), hexDigit (?n mod 16)]"
      by (simp add: quoteChar_def)
    then show ?thesis by (simp add: hi lo z)
  next
    case plain
    then have "c \<notin> {CHR 0x08, CHR 0x09, CHR 0x0A, CHR 0x0C, CHR 0x0D}"
      by (auto simp: codeUnit_def)
    with plain show ?thesis by (simp add: quoteChar_def)
  qed
qed

lemma lexString_quoted:
  "lexString (concat (map quoteChar s) @ CHR 0x22 # rest) = Some (widen s, rest)"
  by (induction s) (simp_all add: lexString_quoteChar widen_def)

lemma lex_quoteJSONString:
  "lex (quoteJSONString s @ rest) = map_option (Cons (TString (widen s))) (lex rest)"
  using lexString_quoted [of s rest] by (simp add: quoteJSONString_def isJsonSpace_def)

lemma joinComma_Cons:
  "joinComma (x # xs) = x @ concat (map (\<lambda>y. CHR '','' # y) xs)"
  by (induction xs arbitrary: x) simp_all

lemma lex_tail:
  "lex (concat (map (\<lambda>y. CHR '','' # y) (map quoteJSONString xs)) @ [CHR '']''])
   = Some (concat (map (\<lambda>y. [TComma, TString (widen y)]) xs) @ [TRBracket])"
  by (induction xs) (simp_all add: isJsonSpace_def lex_quoteJSONString)

lemma parse_tail:
  "parseTokens (CommaOrClose, [InArray acc])
     (concat (map (\<lambda>y. [TComma, TString (widen y)]) xs) @ [TRBracket])
   = Some (JArray (acc @ map (\<lambda>k. JString (widen k)) xs))"
  by (induction xs arbitrary: acc) simp_all

lemma JSON_roundtrip:
  "JSON_parse (JSON_stringify xs) = Some (JArray (map (\<lambda>k. JString (widen k)) xs))"
proof (cases xs)
  case Nil
  then show ?thesis by (simp add: JSON_parse_def JSON_stringify_def isJsonSpace_def)
next
  case (Cons x ys)
  have "lex (JSON_stringify xs)
        = Some (TLBracket # TString (widen x)
                # concat (map (\<lambda>y. [TComma, TString (widen y)]) ys) @ [TRBracket])"
    unfolding JSON_stringify_def Cons list.map joinComma_Cons
    using lex_tail [of ys] by (simp add: isJsonSpace_def lex_quoteJSONString)
  then show ?thesis
    using parse_tail [of "[JString (widen x)]" ys] Cons by (simp add: JSON_parse_def)
qed

text \<open>
  C8. For every node \<open>n\<close>, serializing \<open>n\<close> to the fields of the hash, with the
  keywords JSON-encoded in one field, and deserializing these fields with
  \<open>parseNode\<close> gives the object of \<open>n\<close>: the same \<open>id\<close>, \<open>content\<close>,
  \<open>type\<close>, \<open>createdAt\<close> and \<open>keywords\<close>.
\<close>

theorem C8_node_round_trip:
  "parseNode (Some (storableNode n)) = Some (nodeObject n)
   \<and> getProp (nodeObject n) ''id'' = Some (Str (nid n))
   \<and> getProp (nodeObject n) ''content'' = Some (Str (content n))
   \<and> getProp (nodeObject n) ''type'' = Some (Str (typeString (ntype n)))
   \<and> getProp (nodeObject n) ''createdAt'' = Some (Str (createdAt n))
   \<and> getProp (nodeObject n) ''keywords''
       = Some (Json (JArray (map (\<lambda>k. JString (widen k)) (nkeywords n))))"
proof -
  have "keywordsText (storableNode n) = JSON_stringify (nkeywords n)"
    by (simp add: keywordsText_def storableNode_def JSON_stringify_def)
  then have "parseNode (Some (storableNode n)) = Some (nodeObject n)"
    by (simp add: parseNode_def JSON_roundtrip) (simp add: storableNode_def nodeObject_def)
  then show ?thesis
    by (simp add: getProp_def nodeObject_def)
qed

theorem C8_node_round_trip_witness:
  "parseNode (Some (storableNode
      \<lparr>nid = ''n1'', content = ''Say hi'', ntype = Note,
       createdAt = ''2024-01-01T00:00:00.000Z'',
       nkeywords = [''say'', [CHR 0x22, CHR ''h'', CHR ''i'', CHR 0x22, CHR 0x5C, CHR 0x0A, CHR 0x01]]\<rparr>))
   = Some [(''id'', Str ''n1''), (''content'', Str ''Say hi''),
           (''type'', Str ''note''), (''createdAt'', Str ''2024-01-01T00:00:00.000Z''),
           (''keywords'', Json (JArray [JString [115, 97, 121], JString [34, 104, 105, 34, 92, 10, 1]]))]"
  using C8_node_round_trip [of "\<lparr>nid = ''n1'', content = ''Say hi'', ntype = Note,
       createdAt = ''2024-01-01T00:00:00.000Z'',
       nkeywords = [''say'', [CHR 0x22, CHR ''h'', CHR ''i'', CHR 0x22, CHR 0x5C, CHR 0x0A, CHR 0x01]]\<rparr>"]
  by (simp add: nodeObject_def widen_def codeUnit_def)

section \<open>Properties of the server actions\<close>

subsection \<open>Validation\<close>

text \<open>
  C10. For every submitted id that is not a valid UUID, \<open>deleteNodeAction\<close> and
  \<open>editNodeAction\<close> return their validation failure and leave the client as it was:
  nothing is added to the round trips sent, not even the read of the node, whatever the
  store holds under the key of that id.
\<close>

theorem C10_invalid_id_sends_nothing:
  assumes "\<not> isUuid nodeId"
  shows "deleteNodeAction isUuid (Some nodeId) d = Some ((False, ''Invalid Node ID.''), d)
       \<and> editNodeAction isUuid (Some nodeId) contentField d = Some ((False, ''Invalid data.''), d)"
  using assms
  by (simp add: deleteNodeAction_def editNodeAction_def validId_def split: option.splits)

theorem C10_invalid_id_sends_nothing_witness:
  "\<not> uuidShaped ''42''
   \<and> store (emptyDb\<lparr>store := [nodeKey ''42'' \<mapsto> RHash [(''id'', ''42'')]]\<rparr>) (nodeKey ''42'')
       = Some (RHash [(''id'', ''42'')])
   \<and> deleteNodeAction uuidShaped (Some ''42'')
         (emptyDb\<lparr>store := [nodeKey ''42'' \<mapsto> RHash [(''id'', ''42'')]]\<rparr>)
       = Some ((False, ''Invalid Node ID.''),
               emptyDb\<lparr>store := [nodeKey ''42'' \<mapsto> RHash [(''id'', ''42'')]]\<rparr>)
   \<and> editNodeAction uuidShaped (Some ''42'') (Some ''new content'')
         (emptyDb\<lparr>store := [nodeKey ''42'' \<mapsto> RHash [(''id'', ''42'')]]\<rparr>)
       = Some ((False, ''Invalid data.''),
               emptyDb\<lparr>store := [nodeKey ''42'' \<mapsto> RHash [(''id'', ''42'')]]\<rparr>)"
proof -
  have n: "\<not> uuidShaped ''42''"
    by (simp add: uuidShaped_def)
  show ?thesis
    using n C10_invalid_id_sends_nothing [where isUuid = uuidShaped and nodeId = "''42''"
        and contentField = "Some ''new content''"
        and d = "emptyDb\<lparr>store := [nodeKey ''42'' \<mapsto> RHash [(''id'', ''42'')]]\<rparr>"]
    by simp
qed

subsection \<open>Deleting a node that cannot be read\<close>

lemma call_HGETALL:
  "fault d (Call (HGETALL k)) = None \<Longrightarrow> \<not> isSet (store d k) \<Longrightarrow>
   call (HGETALL k) d
   = (Some (Fields (case store d k of Some (RHash h) \<Rightarrow> h | _ \<Rightarrow> [])),
      d\<lparr>sent := sent d @ [Call (HGETALL k)]\<rparr>)"
  by (cases "store d k" rule: isSet.cases) (simp_all add: call_def)

text \<open>
  C6. The id is valid and the read of the node returns, but there is no record under
  the key, or the record is a hash that \<open>parseNode\<close> cannot parse. Then
  \<open>deleteNodeAction\<close> answers \<open>Node not found.\<close>; the one round trip it sent is the
  read, and the store (the registry set, the keyword sets and the hashes) is unchanged.
\<close>

theorem C6_delete_unreadable_node:
  assumes "isUuid nodeId"
    and "fault d (Call (HGETALL (nodeKey nodeId))) = None"
    and "store d (nodeKey nodeId) = None
         \<or> (\<exists>h. store d (nodeKey nodeId) = Some (RHash h) \<and> parseNode (Some h) = None)"
  shows "deleteNodeAction isUuid (Some nodeId) d
         = Some ((False, ''Node not found.''), d\<lparr>sent := sent d @ [Call (HGETALL (nodeKey nodeId))]\<rparr>)"
proof -
  from assms(3) have s: "\<not> isSet (store d (nodeKey nodeId))" by auto
  have "parseNode (Some (case store d (nodeKey nodeId) of Some (RHash h) \<Rightarrow> h | _ \<Rightarrow> [])) = None"
  proof (cases "store d (nodeKey nodeId)")
    case None
    then show ?thesis by (simp add: parseNode_def)
  next
    case (Some v)
    with assms(3) obtain h where "v = RHash h" "parseNode (Some h) = None" by auto
    with Some show ?thesis by simp
  qed
  then show ?thesis
    using assms(1) call_HGETALL [OF assms(2) s]
    by (simp add: deleteNodeAction_def validId_def)
qed

theorem C6_delete_unreadable_node_witness:
  "deleteNodeAction uuidShaped (Some ''123e4567-e89b-42d3-a456-426614174000'')
     (emptyDb\<lparr>store := [''nodes'' \<mapsto> RSet [''other''], ''keyword:fast'' \<mapsto> RSet [''other'']]\<rparr>)
   = Some ((False, ''Node not found.''),
       emptyDb\<lparr>store := [''nodes'' \<mapsto> RSet [''other''], ''keyword:fast'' \<mapsto> RSet [''other'']],
               sent := [Call (HGETALL ''node:123e4567-e89b-42d3-a456-426614174000'')]\<rparr>)
   \<and> deleteNodeAction uuidShaped (Some ''123e4567-e89b-42d3-a456-426614174000'')
     (emptyDb\<lparr>store := [''node:123e4567-e89b-42d3-a456-426614174000''
                           \<mapsto> RHash [(''id'', ''x''), (''keywords'', ''[oops'')]]\<rparr>)
   = Some ((False, ''Node not found.''),
       emptyDb\<lparr>store := [''node:123e4567-e89b-42d3-a456-426614174000''
                           \<mapsto> RHash [(''id'', ''x''), (''keywords'', ''[oops'')]],
               sent := [Call (HGETALL ''node:123e4567-e89b-42d3-a456-426614174000'')]\<rparr>)"
proof -
  let ?i = "''123e4567-e89b-42d3-a456-426614174000''"
  let ?d1 = "emptyDb\<lparr>store := [''nodes'' \<mapsto> RSet [''other''], ''keyword:fast'' \<mapsto> RSet [''other'']]\<rparr>"
  let ?d2 = "emptyDb\<lparr>store := [''node:123e4567-e89b-42d3-a456-426614174000''
                           \<mapsto> RHash [(''id'', ''x''), (''keywords'', ''[oops'')]]\<rparr>"
  have u: "uuidShaped ?i"
    by code_simp
  have p: "parseNode (Some [(''id'', ''x''), (''keywords'', ''[oops'')]) = None"
    by code_simp
  have f1: "fault ?d1 (Call (HGETALL (nodeKey ?i))) = None"
    and f2: "fault ?d2 (Call (HGETALL (nodeKey ?i))) = None"
    by (simp_all add: emptyDb_def)
  have m1: "store ?d1 (nodeKey ?i) = None
      \<or> (\<exists>h. store ?d1 (nodeKey ?i) = Some (RHash h) \<and> parseNode (Some h) = None)"
    by (simp add: nodeKey_def)
  have m2: "store ?d2 (nodeKey ?i) = None
      \<or> (\<exists>h. store ?d2 (nodeKey ?i) = Some (RHash h) \<and> parseNode (Some h) = None)"
    using p by (simp add: nodeKey_def)
  show ?thesis
    using C6_delete_unreadable_node [where isUuid = uuidShaped and nodeId = ?i and d = ?d1, OF u f1 m1]
      C6_delete_unreadable_node [where isUuid = uuidShaped and nodeId = ?i and d = ?d2, OF u f2 m2]
    by (simp add: nodeKey_def emptyDb_def)
qed

subsection \<open>Failures of the backend while reading\<close>

lemma fetchNodes_fault:
  "fault d (Exec (map (\<lambda>i. HGETALL (nodeKey i)) ids)) \<noteq> None \<Longrightarrow> fst (fetchNodes getTime ids d) = []"
  by (auto simp: fetchNodes_def exec_def)

lemma call_fault: "fault d (Call c) \<noteq> None \<Longrightarrow> fst (call c d) = None"
  by (auto simp: call_def)

lemma call_keeps_fault: "fault (snd (call c d)) = fault d"
  by (auto simp: call_def split: option.splits prod.splits reply.splits)

lemma call_reads_members:
  "call (SMEMBERS k) d = (Some r, d1) \<Longrightarrow> idsOf r = membersOf (store d k)"
  by (auto simp: call_def split: option.splits if_splits)

lemma call_reads_union:
  "call (SUNION ks) d = (Some r, d1) \<Longrightarrow>
   idsOf r = newSet (concat (map (\<lambda>k. membersOf (store d k)) ks))"
  by (auto simp: call_def split: option.splits if_splits)

text \<open>
  C9. When the read of the registry, the union of the keyword sets or the batch that
  reads the hashes throws, \<open>getAllNodes\<close> and \<open>searchNodes\<close> return the empty list:
  the value they return for an empty store, and \<open>searchNodes\<close> for a query without a
  match. Their result type has no other value for the failure.
\<close>

theorem C9_failures_give_empty_list:
  "(fault d (Call (SMEMBERS ''nodes'')) \<noteq> None \<longrightarrow> fst (getAllNodes getTime d) = [])
   \<and> (fault d (Exec (map (\<lambda>i. HGETALL (nodeKey i)) (membersOf (store d ''nodes'')))) \<noteq> None
        \<longrightarrow> fst (getAllNodes getTime d) = [])
   \<and> (fault d (Call (SUNION (map keywordKey (searchTerms query)))) \<noteq> None
        \<longrightarrow> fst (searchNodes getTime query d) = [])
   \<and> (fault d (Exec (map (\<lambda>i. HGETALL (nodeKey i))
          (newSet (concat (map (\<lambda>k. membersOf (store d k)) (map keywordKey (searchTerms query))))))) \<noteq> None
        \<longrightarrow> fst (searchNodes getTime query d) = [])
   \<and> fst (getAllNodes getTime emptyDb) = []
   \<and> fst (searchNodes getTime query emptyDb) = []"
proof -
  have a: "fst (getAllNodes getTime d) = []" if "fault d (Call (SMEMBERS ''nodes'')) \<noteq> None"
    using call_fault [OF that] by (cases "call (SMEMBERS ''nodes'') d") (simp add: getAllNodes_def)
  have b: "fst (getAllNodes getTime d) = []"
    if f: "fault d (Exec (map (\<lambda>i. HGETALL (nodeKey i)) (membersOf (store d ''nodes'')))) \<noteq> None"
  proof (cases "call (SMEMBERS ''nodes'') d")
    case (Pair r d1)
    show ?thesis
    proof (cases r)
      case None
      with Pair show ?thesis by (simp add: getAllNodes_def)
    next
      case (Some m)
      have "fault d1 = fault d" using call_keeps_fault [of "SMEMBERS ''nodes''" d] Pair by simp
      moreover have "idsOf m = membersOf (store d ''nodes'')"
        using call_reads_members Pair Some by simp
      ultimately have "fst (fetchNodes getTime (idsOf m) d1) = []"
        using f by (intro fetchNodes_fault) simp
      with Pair Some show ?thesis by (simp add: getAllNodes_def)
    qed
  qed
  have c: "fst (searchNodes getTime query d) = []"
    if "fault d (Call (SUNION (map keywordKey (searchTerms query)))) \<noteq> None"
    using call_fault [OF that]
    by (cases "call (SUNION (map keywordKey (searchTerms query))) d") (simp add: searchNodes_def)
  have e: "fst (searchNodes getTime query d) = []"
    if f: "fault d (Exec (map (\<lambda>i. HGETALL (nodeKey i))
          (newSet (concat (map (\<lambda>k. membersOf (store d k)) (map keywordKey (searchTerms query))))))) \<noteq> None"
  proof (cases "call (SUNION (map keywordKey (searchTerms query))) d")
    case (Pair r d1)
    show ?thesis
    proof (cases r)
      case None
      with Pair show ?thesis by (simp add: searchNodes_def)
    next
      case (Some m)
      have "fault d1 = fault d"
        using call_keeps_fault [of "SUNION (map keywordKey (searchTerms query))" d] Pair by simp
      moreover have "idsOf m
          = newSet (concat (map (\<lambda>k. membersOf (store d k)) (map keywordKey (searchTerms query))))"
        using call_reads_union Pair Some by simp
      ultimately have "fst (fetchNodes getTime (idsOf m) d1) = []"
        using f by (intro fetchNodes_fault) simp
      with Pair Some show ?thesis by (simp add: searchNodes_def)
    qed
  qed
  have g: "fst (getAllNodes getTime emptyDb) = []"
    by (simp add: getAllNodes_def call_def emptyDb_def)
  have e1: "concat (map (\<lambda>k. ([] :: string list)) ks) = []" for ks :: "string list"
    by (induction ks) simp_all
  have e2: "\<not> list_ex (\<lambda>k. False) ks" for ks :: "string list"
    by (simp add: list_ex_iff)
  have e3: "fst (call (SUNION ks) emptyDb) = Some (Members [])" for ks
    by (simp add: call_def emptyDb_def e1 e2 newSet_def)
  have h: "fst (searchNodes getTime query emptyDb) = []"
  proof (cases "call (SUNION (map keywordKey (searchTerms query))) emptyDb")
    case (Pair r d1)
    with e3 [of "map keywordKey (searchTerms query)"] have "r = Some (Members [])" by simp
    with Pair show ?thesis by (simp add: searchNodes_def)
  qed
  from a b c e g h show ?thesis by blast
qed

theorem C9_failures_give_empty_list_witness:
  "fst (getAllNodes (\<lambda>x. 0)
     \<lparr>store = [''nodes'' \<mapsto> RSet [''n1''], ''node:n1'' \<mapsto> RHash [(''id'', ''n1'')]], sent = [],
      fault = (\<lambda>r. if r = Call (SMEMBERS ''nodes'') then Some 0 else None)\<rparr>) = []
   \<and> fst (getAllNodes (\<lambda>x. 0)
     \<lparr>store = [''nodes'' \<mapsto> RSet [''n1''], ''node:n1'' \<mapsto> RHash [(''id'', ''n1'')]], sent = [],
      fault = (\<lambda>r. if r = Exec [HGETALL ''node:n1''] then Some 0 else None)\<rparr>) = []
   \<and> fst (getAllNodes (\<lambda>x. 0)
     \<lparr>store = [''nodes'' \<mapsto> RSet [''n1''], ''node:n1'' \<mapsto> RHash [(''id'', ''n1'')]], sent = [],
      fault = (\<lambda>r. None)\<rparr>) = [[(''id'', Str ''n1''), (''keywords'', Json (JArray []))]]
   \<and> fst (searchNodes (\<lambda>x. 0) ''fast''
     \<lparr>store = [''keyword:fast'' \<mapsto> RSet [''n1''], ''node:n1'' \<mapsto> RHash [(''id'', ''n1'')]], sent = [],
      fault = (\<lambda>r. if r = Call (SUNION [''keyword:fast'']) then Some 0 else None)\<rparr>) = []
   \<and> fst (searchNodes (\<lambda>x. 0) ''fast''
     \<lparr>store = [''keyword:fast'' \<mapsto> RSet [''n1''], ''node:n1'' \<mapsto> RHash [(''id'', ''n1'')]], sent = [],
      fault = (\<lambda>r. if r = Exec [HGETALL ''node:n1''] then Some 0 else None)\<rparr>) = []"
proof -
  let ?s = "[''nodes'' \<mapsto> RSet [''n1''], ''node:n1'' \<mapsto> RHash [(''id'', ''n1'')]]"
  let ?t = "[''keyword:fast'' \<mapsto> RSet [''n1''], ''node:n1'' \<mapsto> RHash [(''id'', ''n1'')]]"
  let ?d1 = "\<lparr>store = ?s, sent = [],
      fault = (\<lambda>r. if r = Call (SMEMBERS ''nodes'') then Some 0 else None)\<rparr>"
  let ?d2 = "\<lparr>store = ?s, sent = [],
      fault = (\<lambda>r. if r = Exec [HGETALL ''node:n1''] then Some 0 else None)\<rparr>"
  let ?d3 = "\<lparr>store = ?t, sent = [],
      fault = (\<lambda>r. if r = Call (SUNION [''keyword:fast'']) then Some 0 else None)\<rparr>"
  let ?d4 = "\<lparr>store = ?t, sent = [],
      fault = (\<lambda>r. if r = Exec [HGETALL ''node:n1''] then Some 0 else None)\<rparr>"
  have t: "searchTerms ''fast'' = [''fast'']"
    by code_simp
  have ok: "fst (getAllNodes (\<lambda>x. 0) \<lparr>store = ?s, sent = [], fault = (\<lambda>r. None)\<rparr>)
      = [[(''id'', Str ''n1''), (''keywords'', Json (JArray []))]]"
    by code_simp
  have 1: "fst (getAllNodes (\<lambda>x. 0) ?d1) = []"
    using C9_failures_give_empty_list [of ?d1 "\<lambda>x. 0" "''fast''"] by simp
  have 2: "fst (getAllNodes (\<lambda>x. 0) ?d2) = []"
    using C9_failures_give_empty_list [of ?d2 "\<lambda>x. 0" "''fast''"] by (simp add: nodeKey_def)
  have 3: "fst (searchNodes (\<lambda>x. 0) ''fast'' ?d3) = []"
    using C9_failures_give_empty_list [of ?d3 "\<lambda>x. 0" "''fast''"] by (simp add: t keywordKey_def)
  have 4: "fst (searchNodes (\<lambda>x. 0) ''fast'' ?d4) = []"
    using C9_failures_give_empty_list [of ?d4 "\<lambda>x. 0" "''fast''"]
    by (simp add: t keywordKey_def nodeKey_def newSet_def setAdd_def)
  from 1 2 ok 3 4 show ?thesis by simp
qed

subsection \<open>The store under a batch\<close>

lemma map_of_hsetFields: "map_of (hsetFields h fs) = map_of h ++ map_of (rev fs)"
  unfolding hsetFields_def
proof (induction fs arbitrary: h)
  case Nil
  show ?case by simp
next
  case (Cons p fs)
  obtain f v where p: "p = (f, v)" by (cases p)
  have "map_of (AList.update f v h) ++ map_of (rev fs)
        = map_of h ++ map_of (rev fs @ [(f, v)])"
    by (simp add: update_conv' map_add_upd_left fun_eq_iff map_add_def split: option.splits)
  with Cons.IH [of "AList.update f v h"] p show ?case by simp
qed

lemma exec_Some:
  "exec cs d = (Some rs, d') \<Longrightarrow>
   d' = d\<lparr>store := snd (runAll cs (store d)), sent := sent d @ [Exec cs]\<rparr>
   \<and> rs = fst (runAll cs (store d)) \<and> fault d (Exec cs) = None"
  by (auto simp: exec_def split: option.splits)

lemma call_HGETALL_Some:
  "call (HGETALL k) d = (Some r, d1) \<Longrightarrow>
   d1 = d\<lparr>sent := sent d @ [Call (HGETALL k)]\<rparr>
   \<and> \<not> isSet (store d k)
   \<and> r = Fields (case store d k of Some (RHash h) \<Rightarrow> h | _ \<Rightarrow> [])"
  by (cases "store d k" rule: isSet.cases) (auto simp: call_def split: option.splits)

lemma snd_runAll_Cons: "snd (runAll (c # cs) s) = snd (runAll cs (snd (runCommand c s)))"
  by (simp split: prod.splits)

lemma runCommand_index_hash:
  "(\<exists>k m. c = SADD k m) \<or> (\<exists>k m. c = SREM k m) \<Longrightarrow> s key = Some (RHash h) \<Longrightarrow>
   snd (runCommand c s) key = Some (RHash h)"
  by (auto split: option.splits rvalue.splits)

lemma runAll_index_hash:
  "\<forall>c\<in>set cs. (\<exists>k m. c = SADD k m) \<or> (\<exists>k m. c = SREM k m) \<Longrightarrow> s key = Some (RHash h) \<Longrightarrow>
   snd (runAll cs s) key = Some (RHash h)"
proof (induction cs arbitrary: s)
  case Nil
  then show ?case by simp
next
  case (Cons c cs)
  from Cons.prems have "snd (runCommand c s) key = Some (RHash h)"
    by (intro runCommand_index_hash) simp_all
  moreover from Cons.prems(1)
  have "\<forall>c\<in>set cs. (\<exists>k m. c = SADD k m) \<or> (\<exists>k m. c = SREM k m)" by simp
  ultimately have "snd (runAll cs (snd (runCommand c s))) key = Some (RHash h)"
    by (rule Cons.IH [where s = "snd (runCommand c s)", rotated])
  then show ?case
    by (simp only: snd_runAll_Cons)
qed

lemma runCommand_SADD_not_hash:
  "\<not> isHash (s key) \<Longrightarrow> \<not> isHash (snd (runCommand (SADD k m) s) key)"
  by (cases "s k" rule: isHash.cases) auto

lemma runCommand_SADD_keeps_member:
  "s key = Some (RSet ms) \<Longrightarrow> x \<in> set ms \<Longrightarrow>
   \<exists>ms'. snd (runCommand (SADD k m) s) key = Some (RSet ms') \<and> x \<in> set ms'"
  by (cases "s k" rule: isHash.cases) auto

lemma runCommand_SADD_adds:
  "\<not> isHash (s key) \<Longrightarrow>
   \<exists>ms'. snd (runCommand (SADD key m) s) key = Some (RSet ms') \<and> m \<in> set ms'"
  by (cases "s key" rule: isHash.cases) auto

lemma runAll_SADD_keeps_member:
  "\<forall>c\<in>set cs. \<exists>k m. c = SADD k m \<Longrightarrow> s key = Some (RSet ms) \<Longrightarrow> x \<in> set ms \<Longrightarrow>
   \<exists>ms'. snd (runAll cs s) key = Some (RSet ms') \<and> x \<in> set ms'"
proof (induction cs arbitrary: s ms)
  case Nil
  then show ?case by simp
next
  case (Cons c cs)
  from Cons.prems(1) obtain k m where c: "c = SADD k m" by auto
  from runCommand_SADD_keeps_member [where s = s and key = key and k = k and m = m, OF Cons.prems(2,3)]
  obtain ms1 where ms1: "snd (runCommand c s) key = Some (RSet ms1)" "x \<in> set ms1"
    using c by auto
  from Cons.prems(1) have "\<forall>c\<in>set cs. \<exists>k m. c = SADD k m" by simp
  from Cons.IH [where s = "snd (runCommand c s)", OF this ms1] show ?case
    by (simp only: snd_runAll_Cons)
qed

lemma runAll_SADD_adds:
  "\<forall>c\<in>set cs. \<exists>k m. c = SADD k m \<Longrightarrow> SADD key x \<in> set cs \<Longrightarrow> \<not> isHash (s key) \<Longrightarrow>
   \<exists>ms'. snd (runAll cs s) key = Some (RSet ms') \<and> x \<in> set ms'"
proof (induction cs arbitrary: s)
  case Nil
  then show ?case by simp
next
  case (Cons c cs)
  from Cons.prems(1) obtain k m where c: "c = SADD k m" by auto
  have rest: "\<forall>c\<in>set cs. \<exists>k m. c = SADD k m" using Cons.prems(1) by simp
  show ?case
  proof (cases "c = SADD key x")
    case True
    from runCommand_SADD_adds [where s = s and key = key and m = x, OF Cons.prems(3)]
    obtain ms1 where ms1: "snd (runCommand c s) key = Some (RSet ms1)" "x \<in> set ms1"
      using True by auto
    from runAll_SADD_keeps_member [where s = "snd (runCommand c s)", OF rest ms1] show ?thesis
      by (simp only: snd_runAll_Cons)
  next
    case False
    with Cons.prems(2) have "SADD key x \<in> set cs" by simp
    moreover have "\<not> isHash (snd (runCommand c s) key)"
      unfolding c by (rule runCommand_SADD_not_hash [where s = s and key = key, OF Cons.prems(3)])
    ultimately have "\<exists>ms'. snd (runAll cs (snd (runCommand c s))) key = Some (RSet ms') \<and> x \<in> set ms'"
      by (rule Cons.IH [where s = "snd (runCommand c s)", OF rest])
    then show ?thesis by (simp only: snd_runAll_Cons)
  qed
qed

lemma runAll_HGETALL:
  "runAll (map (\<lambda>i. HGETALL (nodeKey i)) ids) s
   = (map (\<lambda>i. fst (runCommand (HGETALL (nodeKey i)) s)) ids, s)"
  by (induction ids) (auto split: option.splits rvalue.splits)

lemma set_readNodes:
  "set (readNodes rs) = {node. \<exists>r\<in>set rs. parseNode (fieldsOf r) = Some node}"
  by (force simp: readNodes_def map_filter_def image_iff)

lemma set_sortNewestFirst: "set (sortNewestFirst getTime nodes) = set nodes"
  by (simp add: sortNewestFirst_def)

lemma nodeKey_neq [simp]:
  "nodeKey i \<noteq> keywordKey k" "nodeKey i \<noteq> ''nodes''" "keywordKey k \<noteq> ''nodes''"
  "keywordKey k \<noteq> nodeKey i" "''nodes'' \<noteq> nodeKey i" "''nodes'' \<noteq> keywordKey k"
  by (simp_all add: nodeKey_def keywordKey_def)

lemma keywordKey_inj [simp]: "keywordKey a = keywordKey b \<longleftrightarrow> a = b"
  by (simp add: keywordKey_def)

subsection \<open>Updating a node\<close>

text \<open>
  C5. A successful \<open>editNodeAction\<close> found a hash under the key of the node, and the
  hash it leaves there has the new content and the JSON text of the new keywords in its
  \<open>content\<close> and \<open>keywords\<close> fields and every other field, \<open>id\<close>, \<open>createdAt\<close>
  and \<open>type\<close> among them, as it was: the type is not computed again.
\<close>

theorem C5_update_rewrites_two_fields:
  assumes "editNodeAction isUuid (Some nodeId) (Some text) d = Some ((True, msg), d')"
  shows "\<exists>h h'. store d (nodeKey nodeId) = Some (RHash h)
           \<and> store d' (nodeKey nodeId) = Some (RHash h')
           \<and> map_of h' ''content'' = Some text
           \<and> map_of h' ''keywords'' = Some (JSON_stringify (extractKeywords text))
           \<and> map_of h' ''id'' = map_of h ''id''
           \<and> map_of h' ''createdAt'' = map_of h ''createdAt''
           \<and> map_of h' ''type'' = map_of h ''type''
           \<and> (\<forall>f. f \<noteq> ''content'' \<longrightarrow> f \<noteq> ''keywords'' \<longrightarrow> map_of h' f = map_of h f)"
proof -
  let ?k = "nodeKey nodeId"
  let ?new = "newSet (extractKeywords text)"
  from assms have v: "validId isUuid (Some nodeId) = Some nodeId" "validContent (Some text) = Some text"
    by (auto simp: editNodeAction_def validId_def validContent_def split: if_splits)
  obtain r d1 where c: "call (HGETALL ?k) d = (r, d1)" by (cases "call (HGETALL ?k) d")
  from assms v c obtain nodeData where r: "r = Some nodeData"
    by (cases r) (auto simp: editNodeAction_def)
  from assms v c r obtain oldNode where p: "parseNode (fieldsOf nodeData) = Some oldNode"
    by (cases "parseNode (fieldsOf nodeData)") (auto simp: editNodeAction_def)
  from assms v c r p obtain oldKeywords where
    i: "setOf (getProp oldNode ''keywords'') = Items oldKeywords"
    by (cases "setOf (getProp oldNode ''keywords'')") (auto simp: editNodeAction_def)
  let ?batch = "editBatch nodeId text oldKeywords ?new"
  from assms v c r p i obtain rs where e: "exec ?batch d1 = (Some rs, d')"
    by (cases "exec ?batch d1") (auto simp: editNodeAction_def split: option.splits)
  from call_HGETALL_Some c r
  have d1: "d1 = d\<lparr>sent := sent d @ [Call (HGETALL ?k)]\<rparr>"
    and ns: "\<not> isSet (store d ?k)"
    and nd: "nodeData = Fields (case store d ?k of Some (RHash h) \<Rightarrow> h | _ \<Rightarrow> [])"
    by auto
  from p nd obtain h where h: "store d ?k = Some (RHash h)"
    by (cases "store d ?k" rule: isSet.cases) (auto simp: parseNode_def)
  let ?fs = "[(''content'', text), (''keywords'', JSON_stringify ?new)]"
  let ?h' = "hsetFields h ?fs"
  let ?index = "map (\<lambda>keyword. SADD (keywordKey keyword) nodeId) (keywordsToAdd oldKeywords ?new)
     @ map (\<lambda>keyword. SREM (keywordKey keyword) nodeId) (keywordsToRemove oldKeywords ?new)"
  have b: "?batch = HSET ?k ?fs # ?index"
    by (simp add: editBatch_def)
  have s1: "snd (runCommand (HSET ?k ?fs) (store d)) ?k = Some (RHash ?h')"
    using h by simp
  have "\<forall>c\<in>set ?index. (\<exists>k m. c = SADD k m) \<or> (\<exists>k m. c = SREM k m)"
    by auto
  from runAll_index_hash [where s = "snd (runCommand (HSET ?k ?fs) (store d))", OF this s1]
  have "snd (runAll ?batch (store d)) ?k = Some (RHash ?h')"
    unfolding b by (simp only: snd_runAll_Cons)
  with exec_Some [OF e] d1 have s': "store d' ?k = Some (RHash ?h')"
    by simp
  have n: "?new = extractKeywords text"
    by (rule newSet_distinct_id) (rule extractKeywords_distinct)
  have "map_of ?h' ''content'' = Some text"
    and "map_of ?h' ''keywords'' = Some (JSON_stringify (extractKeywords text))"
    and "\<forall>f. f \<noteq> ''content'' \<longrightarrow> f \<noteq> ''keywords'' \<longrightarrow> map_of ?h' f = map_of h f"
    by (simp_all add: map_of_hsetFields map_add_def n)
  moreover from this(3) have "map_of ?h' ''id'' = map_of h ''id''"
    and "map_of ?h' ''createdAt'' = map_of h ''createdAt''"
    and "map_of ?h' ''type'' = map_of h ''type''"
    by simp_all
  ultimately show ?thesis using h s' by blast
qed

theorem C5_update_rewrites_two_fields_witness:
  "map_option fst
     (editNodeAction uuidShaped (Some ''123e4567-e89b-42d3-a456-426614174000'') (Some ''plain words now'')
        (snd (addNodeAction ''123e4567-e89b-42d3-a456-426614174000'' ''2024-01-01T00:00:00.000Z''
                ''http://x.io fast'' emptyDb)))
     = Some (True, ''Node updated.'')
   \<and> (\<exists>h h'.
         store (snd (addNodeAction ''123e4567-e89b-42d3-a456-426614174000'' ''2024-01-01T00:00:00.000Z''
                       ''http://x.io fast'' emptyDb))
           (nodeKey ''123e4567-e89b-42d3-a456-426614174000'') = Some (RHash h)
         \<and> store (snd (the
               (editNodeAction uuidShaped (Some ''123e4567-e89b-42d3-a456-426614174000'')
                  (Some ''plain words now'')
                  (snd (addNodeAction ''123e4567-e89b-42d3-a456-426614174000''
                          ''2024-01-01T00:00:00.000Z'' ''http://x.io fast'' emptyDb)))))
           (nodeKey ''123e4567-e89b-42d3-a456-426614174000'') = Some (RHash h')
         \<and> map_of h ''type'' = Some ''url''
         \<and> map_of h' ''type'' = Some ''url''
         \<and> map_of h' ''content'' = Some ''plain words now''
         \<and> map_of h' ''keywords'' = Some (JSON_stringify [''plain'', ''words'', ''now''])
         \<and> map_of h' ''id'' = map_of h ''id''
         \<and> map_of h' ''createdAt'' = map_of h ''createdAt'')"
proof -
  let ?i = "''123e4567-e89b-42d3-a456-426614174000''"
  let ?d = "snd (addNodeAction ?i ''2024-01-01T00:00:00.000Z'' ''http://x.io fast'' emptyDb)"
  let ?r = "editNodeAction uuidShaped (Some ?i) (Some ''plain words now'') ?d"
  have a: "map_option fst ?r = Some (True, ''Node updated.'')"
    by code_simp
  then have r: "?r = Some ((True, ''Node updated.''), snd (the ?r))"
    by (cases ?r) auto
  have t: "map_option (\<lambda>v. case v of RHash h \<Rightarrow> map_of h ''type'' | RSet ms \<Rightarrow> None)
             (store ?d (nodeKey ?i)) = Some (Some ''url'')"
    by code_simp
  have e: "extractKeywords ''plain words now'' = [''plain'', ''words'', ''now'']"
    by code_simp
  from C5_update_rewrites_two_fields [OF r]
  obtain h h' where h: "store ?d (nodeKey ?i) = Some (RHash h)"
    and h': "store (snd (the ?r)) (nodeKey ?i) = Some (RHash h')"
    and f: "map_of h' ''content'' = Some ''plain words now''"
      "map_of h' ''keywords'' = Some (JSON_stringify (extractKeywords ''plain words now''))"
      "map_of h' ''id'' = map_of h ''id''"
      "map_of h' ''createdAt'' = map_of h ''createdAt''"
      "map_of h' ''type'' = map_of h ''type''"
    by blast
  from t h have "map_of h ''type'' = Some ''url''" by simp
  with a h h' f e show ?thesis by auto
qed

subsection \<open>Searching for a keyword of a created node\<close>

lemma lowerChar_idem: "lowerChar (lowerChar c) = lowerChar c"
proof (cases "isUpper c")
  case False
  then show ?thesis by (simp add: lowerChar_def)
next
  case True
  let ?n = "codeUnit c"
  from True have b: "?n + 32 < 256" by (auto simp: isUpper_def)
  then have "codeUnit (char_of (?n + 32)) = ?n + 32"
    by (simp add: codeUnit_def)
  with True have "\<not> isUpper (char_of (?n + 32))"
    unfolding isUpper_def by arith
  with True show ?thesis by (simp add: lowerChar_def)
qed

lemma splitWs_chars: "w \<in> set (splitWs cur s) \<Longrightarrow> set w \<subseteq> set cur \<union> set s"
proof (induction cur s rule: splitWs.induct)
  case (1 cur)
  then show ?case by simp
next
  case (2 cur c cs)
  show ?case
  proof (cases "isSpace c")
    case True
    with 2 show ?thesis by (auto dest: set_dropWhileD)
  next
    case False
    with 2 show ?thesis by auto
  qed
qed

lemma splitWs_no_space:
  "w \<in> set (splitWs cur s) \<Longrightarrow> \<forall>c\<in>set cur. \<not> isSpace c \<Longrightarrow> \<forall>c\<in>set w. \<not> isSpace c"
proof (induction cur s rule: splitWs.induct)
  case (1 cur)
  then show ?case by simp
next
  case (2 cur c cs)
  show ?case
  proof (cases "isSpace c")
    case True
    with 2 show ?thesis by auto
  next
    case False
    with 2 show ?thesis by auto
  qed
qed

lemma keyword_chars:
  assumes "k \<in> set (extractKeywords text)"
  shows "\<forall>c\<in>set k. \<not> isSpace c" and "\<forall>c\<in>set k. lowerChar c = c"
proof -
  from assms have "k \<in> set (take 10 (map removePunct
       (filter (\<lambda>word. length word > 2 \<and> \<not> allDigits word) (split_ws (toLowerCase text)))))"
    by (simp add: extractKeywords_def set_newSet)
  then have "k \<in> set (map removePunct
       (filter (\<lambda>word. length word > 2 \<and> \<not> allDigits word) (split_ws (toLowerCase text))))"
    by (rule in_set_takeD)
  then obtain w where w: "w \<in> set (splitWs [] (toLowerCase text))" and k: "k = removePunct w"
    by (auto simp: split_ws_def)
  from splitWs_no_space [OF w] have "\<forall>c\<in>set w. \<not> isSpace c" by simp
  then show "\<forall>c\<in>set k. \<not> isSpace c" by (simp add: k removePunct_def)
  from splitWs_chars [OF w] have "set w \<subseteq> lowerChar ` set text"
    by (simp add: toLowerCase_def)
  then have "\<forall>c\<in>set w. lowerChar c = c" by (auto simp: lowerChar_idem)
  then show "\<forall>c\<in>set k. lowerChar c = c" by (simp add: k removePunct_def)
qed

lemma searchTerms_keyword:
  assumes "\<forall>c\<in>set k. \<not> isSpace c" and "\<forall>c\<in>set k. lowerChar c = c" and "length k > 2"
  shows "searchTerms k = [k]" and "trim k \<noteq> []"
proof -
  from assms(2) have "toLowerCase k = k"
    by (simp add: toLowerCase_def map_idI)
  then show "searchTerms k = [k]"
    using assms(1,3) by (simp add: searchTerms_def split_ws_def splitWs_nospace newSet_def setAdd_def)
  from assms(3) obtain c cs where k: "k = c # cs" by (cases k) auto
  with assms(1) have "dropWhile isSpace k = k" by simp
  moreover from assms(1) have "dropWhile isSpace (rev k) = rev k"
    by (cases "rev k") auto
  ultimately show "trim k \<noteq> []" using k by (simp add: trim_def)
qed

lemma isPunct_lowerChar: "isPunct (lowerChar c) \<Longrightarrow> isPunct c"
proof (cases "isUpper c")
  case False
  then show "isPunct (lowerChar c) \<Longrightarrow> isPunct c" by (simp add: lowerChar_def)
next
  case True
  let ?n = "codeUnit c"
  from True have "?n + 32 < 256" and "97 \<le> ?n + 32" by (auto simp: isUpper_def)
  then have "97 \<le> codeUnit (char_of (?n + 32))" by (simp add: codeUnit_def)
  moreover have "isPunct x \<Longrightarrow> codeUnit x \<le> 63" for x
    by (auto simp: isPunct_def codeUnit_def)
  ultimately have "\<not> isPunct (char_of (?n + 32))" by fastforce
  with True show "isPunct (lowerChar c) \<Longrightarrow> isPunct c" by (simp add: lowerChar_def)
qed

lemma keywords_without_punctuation:
  assumes "\<forall>c\<in>set text. \<not> isPunct c" and "k \<in> set (extractKeywords text)"
  shows "length k > 2 \<and> \<not> allDigits k"
proof -
  from assms(2) have "k \<in> set (take 10 (map removePunct
       (filter (\<lambda>word. length word > 2 \<and> \<not> allDigits word) (split_ws (toLowerCase text)))))"
    by (simp add: extractKeywords_def set_newSet)
  then have "k \<in> set (map removePunct
       (filter (\<lambda>word. length word > 2 \<and> \<not> allDigits word) (split_ws (toLowerCase text))))"
    by (rule in_set_takeD)
  then obtain w where w: "w \<in> set (splitWs [] (toLowerCase text))"
    and q: "length w > 2" "\<not> allDigits w" and k: "k = removePunct w"
    by (auto simp: split_ws_def)
  from splitWs_chars [OF w] have "set w \<subseteq> lowerChar ` set text"
    by (simp add: toLowerCase_def)
  with assms(1) have "\<forall>c\<in>set w. \<not> isPunct c"
    by (auto dest: isPunct_lowerChar)
  then have "removePunct w = w" by (simp add: removePunct_def)
  with q k show ?thesis by simp
qed

lemma addBatch_store:
  assumes "\<not> isSet (s (nodeKey (nid n)))" and "k \<in> set (nkeywords n)"
    and "\<not> isHash (s (keywordKey k))"
  shows "\<exists>h ms. snd (runAll (addBatch n) s) (nodeKey (nid n)) = Some (RHash h)
           \<and> map_of h = map_of (case s (nodeKey (nid n)) of Some (RHash h0) \<Rightarrow> h0 | _ \<Rightarrow> [])
                          ++ map_of (rev (storableNode n))
           \<and> snd (runAll (addBatch n) s) (keywordKey k) = Some (RSet ms) \<and> nid n \<in> set ms"
proof -
  let ?nk = "nodeKey (nid n)"
  let ?old = "case s ?nk of Some (RHash h0) \<Rightarrow> h0 | _ \<Rightarrow> []"
  let ?h = "hsetFields ?old (storableNode n)"
  let ?s1 = "snd (runCommand (HSET ?nk (storableNode n)) s)"
  let ?adds = "SADD ''nodes'' (nid n) # map (\<lambda>keyword. SADD (keywordKey keyword) (nid n)) (nkeywords n)"
  have b: "snd (runAll (addBatch n) s) = snd (runAll ?adds ?s1)"
    by (simp only: addBatch_def snd_runAll_Cons)
  have h1: "?s1 ?nk = Some (RHash ?h)"
    using assms(1) by (cases "s ?nk" rule: isSet.cases) simp_all
  have k1: "\<not> isHash (?s1 (keywordKey k))"
    using assms(3) by (cases "s ?nk" rule: isSet.cases) simp_all
  have all: "\<forall>c\<in>set ?adds. \<exists>k m. c = SADD k m"
    by auto
  then have idx: "\<forall>c\<in>set ?adds. (\<exists>k m. c = SADD k m) \<or> (\<exists>k m. c = SREM k m)"
    by blast
  have mem: "SADD (keywordKey k) (nid n) \<in> set ?adds"
    using assms(2) by simp
  from runAll_index_hash [where s = ?s1, OF idx h1]
  have 1: "snd (runAll (addBatch n) s) ?nk = Some (RHash ?h)"
    by (simp only: b)
  from runAll_SADD_adds [where s = ?s1, OF all mem k1]
  obtain ms where 2: "snd (runAll (addBatch n) s) (keywordKey k) = Some (RSet ms)" "nid n \<in> set ms"
    unfolding b by blast
  from 1 2 map_of_hsetFields [of ?old "storableNode n"] show ?thesis
    by blast
qed

lemma parseNode_stored:
  assumes "map_of h = m0 ++ map_of (rev (storableNode n))"
  shows "\<exists>node. parseNode (Some h) = Some node
           \<and> getProp node ''id'' = Some (Str (nid n))
           \<and> getProp node ''content'' = Some (Str (content n))
           \<and> getProp node ''type'' = Some (Str (typeString (ntype n)))
           \<and> getProp node ''createdAt'' = Some (Str (createdAt n))
           \<and> getProp node ''keywords''
               = Some (Json (JArray (map (\<lambda>k. JString (widen k)) (nkeywords n))))"
proof -
  have f: "map_of h ''id'' = Some (nid n)" "map_of h ''content'' = Some (content n)"
    "map_of h ''type'' = Some (typeString (ntype n))" "map_of h ''createdAt'' = Some (createdAt n)"
    "map_of h ''keywords'' = Some (JSON_stringify (nkeywords n))"
    by (simp_all add: assms storableNode_def)
  from f(1) have ne: "h \<noteq> []" by auto
  have t: "keywordsText h = JSON_stringify (nkeywords n)"
    by (simp add: keywordsText_def f JSON_stringify_def)
  let ?j = "JArray (map (\<lambda>k. JString (widen k)) (nkeywords n))"
  let ?node = "AList.update ''keywords'' (Json ?j) (map (\<lambda>(f, v). (f, Str v)) h)"
  have p: "parseNode (Some h) = Some ?node"
    using ne by (simp add: parseNode_def t JSON_roundtrip)
  have m: "map_of (map (\<lambda>(f, v). (f, Str v)) h) = map_option Str \<circ> map_of h"
    by (induction h) (auto simp: fun_eq_iff)
  have "getProp ?node x = (if x = ''keywords'' then Some (Json ?j) else map_option Str (map_of h x))" for x
    by (simp add: getProp_def update_conv' m)
  with p f show ?thesis by simp
qed

text \<open>
  What the code does guarantee. \<open>addNodeAction\<close> succeeded, on a connection that does
  not fail and a store where the key of the node holds no set and the key of the keyword
  no hash (the program itself never writes such values). Then for every keyword \<open>k\<close>
  of the content that is longer than 2 characters, \<open>searchNodes\<close> for \<open>k\<close> returns a
  node with the id, content, type, time stamp and keywords of the created node. A text
  without punctuation has no other keywords (\<open>keywords_without_punctuation\<close>).
\<close>

lemma long_keyword_is_found:
  assumes created: "addNodeAction nodeId now text d = ((Success, msg), d')"
    and k: "k \<in> set (extractKeywords text)"
    and long: "length k > 2"
    and reliable: "fault d = (\<lambda>r. None)"
    and nodeKeyFree: "\<not> isSet (store d (nodeKey nodeId))"
    and keywordKeyFree: "\<not> isHash (store d (keywordKey k))"
  shows "\<exists>node\<in>set (fst (searchNodes getTime k d')).
           getProp node ''id'' = Some (Str nodeId)
           \<and> getProp node ''content'' = Some (Str text)
           \<and> getProp node ''type'' = Some (Str (if startsWith text ''http'' then ''url'' else ''note''))
           \<and> getProp node ''createdAt'' = Some (Str now)
           \<and> getProp node ''keywords''
               = Some (Json (JArray (map (\<lambda>k. JString (widen k)) (extractKeywords text))))"
proof -
  let ?n = "newNode nodeId now text"
  have n: "nid ?n = nodeId" "content ?n = text" "createdAt ?n = now"
    "nkeywords ?n = extractKeywords text"
    "typeString (ntype ?n) = (if startsWith text ''http'' then ''url'' else ''note'')"
    by (simp_all add: newNode_def)
  from created obtain rs where e: "exec (addBatch ?n) d = (Some rs, d')"
    by (cases "exec (addBatch ?n) d") (auto simp: addNodeAction_def split: if_splits option.splits)
  from exec_Some [OF e] have d': "store d' = snd (runAll (addBatch ?n) (store d))"
    and f': "fault d' = (\<lambda>r. None)"
    using reliable by simp_all
  from addBatch_store [of "store d" ?n k] nodeKeyFree k keywordKeyFree n
  obtain h ms where h: "store d' (nodeKey nodeId) = Some (RHash h)"
    and hm: "map_of h = map_of (case store d (nodeKey nodeId) of Some (RHash h0) \<Rightarrow> h0 | _ \<Rightarrow> [])
                          ++ map_of (rev (storableNode ?n))"
    and ms: "store d' (keywordKey k) = Some (RSet ms)" "nodeId \<in> set ms"
    unfolding d' by auto
  from parseNode_stored [OF hm] n
  obtain node where node: "parseNode (Some h) = Some node"
    and props: "getProp node ''id'' = Some (Str nodeId)"
      "getProp node ''content'' = Some (Str text)"
      "getProp node ''type'' = Some (Str (if startsWith text ''http'' then ''url'' else ''note''))"
      "getProp node ''createdAt'' = Some (Str now)"
      "getProp node ''keywords''
         = Some (Json (JArray (map (\<lambda>k. JString (widen k)) (extractKeywords text))))"
    by auto
  have t: "searchTerms k = [k]" "trim k \<noteq> []"
    by (rule searchTerms_keyword [OF keyword_chars(1) [OF k] keyword_chars(2) [OF k] long])+
  let ?d1 = "d'\<lparr>sent := sent d' @ [Call (SUNION [keywordKey k])]\<rparr>"
  have u: "call (SUNION [keywordKey k]) d' = (Some (Members (newSet ms)), ?d1)"
    using ms f' by (simp add: call_def)
  have i: "nodeId \<in> set (newSet ms)"
    using ms by (simp add: set_newSet)
  then have ne: "newSet ms \<noteq> []" by auto
  have "fetchNodes getTime (newSet ms) ?d1
        = (sortNewestFirst getTime
             (readNodes (map (\<lambda>i. fst (runCommand (HGETALL (nodeKey i)) (store d'))) (newSet ms))),
           ?d1\<lparr>sent := sent ?d1 @ [Exec (map (\<lambda>i. HGETALL (nodeKey i)) (newSet ms))]\<rparr>)"
    using f' by (simp add: fetchNodes_def exec_def runAll_HGETALL)
  with t u ne have r: "fst (searchNodes getTime k d')
        = sortNewestFirst getTime
            (readNodes (map (\<lambda>i. fst (runCommand (HGETALL (nodeKey i)) (store d'))) (newSet ms)))"
    by (simp add: searchNodes_def)
  have "fst (runCommand (HGETALL (nodeKey nodeId)) (store d')) = Fields h"
    using h by simp
  with i node have "node \<in> set (fst (searchNodes getTime k d'))"
    unfolding r set_sortNewestFirst set_readNodes by force
  with props show ?thesis by blast
qed

lemma long_keyword_is_found_example:
  "fst (addNodeAction ''n1'' ''2024-01-01T00:00:00.000Z'' ''ab! Hello, hello 123.'' emptyDb)
     = (Success, ''Node added!'')
   \<and> extractKeywords ''ab! Hello, hello 123.'' = [''ab'', ''hello'', ''123'']
   \<and> (\<exists>node\<in>set (fst (searchNodes (\<lambda>x. 0) ''hello''
          (snd (addNodeAction ''n1'' ''2024-01-01T00:00:00.000Z'' ''ab! Hello, hello 123.'' emptyDb)))).
         getProp node ''id'' = Some (Str ''n1'')
         \<and> getProp node ''content'' = Some (Str ''ab! Hello, hello 123.'')
         \<and> getProp node ''type'' = Some (Str ''note'')
         \<and> getProp node ''createdAt'' = Some (Str ''2024-01-01T00:00:00.000Z'')
         \<and> getProp node ''keywords''
             = Some (Json (JArray (map (\<lambda>k. JString (widen k)) [''ab'', ''hello'', ''123'']))))"
proof -
  let ?t = "''ab! Hello, hello 123.''"
  let ?r = "addNodeAction ''n1'' ''2024-01-01T00:00:00.000Z'' ?t emptyDb"
  have a: "fst ?r = (Success, ''Node added!'')"
    by code_simp
  then have c: "?r = ((Success, ''Node added!''), snd ?r)"
    by (cases ?r) simp
  have e: "extractKeywords ?t = [''ab'', ''hello'', ''123'']"
    by code_simp
  have s: "startsWith ?t ''http'' = False"
    by code_simp
  have k: "''hello'' \<in> set (extractKeywords ?t)" "length ''hello'' > 2"
    by (simp_all add: e)
  have "fault emptyDb = (\<lambda>r. None)" "\<not> isSet (store emptyDb (nodeKey ''n1''))"
    "\<not> isHash (store emptyDb (keywordKey ''hello''))"
    by (simp_all add: emptyDb_def)
  from long_keyword_is_found [where getTime = "\<lambda>x. 0", OF c k this] a e s
  show ?thesis by simp
qed

text \<open>
  C1. The specification: after a successful \<open>create\<close>, \<open>search(k)\<close> includes the
  created node for every keyword \<open>k\<close> of the content. The content \<open>ab! hello\<close> is
  indexed under \<open>ab\<close> and \<open>hello\<close>: the token \<open>ab!\<close> passes the length filter
  of \<open>extractKeywords\<close> before its punctuation is deleted. \<open>searchNodes\<close> drops the
  terms of length at most 2, so the search for \<open>ab\<close> sends nothing and returns the empty
  list, while the search for \<open>hello\<close> returns the node.
\<close>

theorem C1_short_keyword_is_not_found:
  "fst (addNodeAction ''n1'' ''2024-01-01T00:00:00.000Z'' ''ab! hello'' emptyDb)
     = (Success, ''Node added!'')
   \<and> extractKeywords ''ab! hello'' = [''ab'', ''hello'']
   \<and> fst (searchNodes (\<lambda>x. 0) ''ab''
        (snd (addNodeAction ''n1'' ''2024-01-01T00:00:00.000Z'' ''ab! hello'' emptyDb))) = []
   \<and> map (\<lambda>node. getProp node ''id'')
        (fst (searchNodes (\<lambda>x. 0) ''hello''
          (snd (addNodeAction ''n1'' ''2024-01-01T00:00:00.000Z'' ''ab! hello'' emptyDb))))
       = [Some (Str ''n1'')]"
  by code_simp

end
